theory Spec2Isabelle
  imports Complex_Main "HOL-Library.Word" "HOL-Library.AList" "HOL-Library.Sublist"
begin

unbundle bit_operations_syntax

section \<open>Bytes and JavaScript strings\<close>

text \<open>
  A Node \<open>Buffer\<close> is a sequence of octets; a JavaScript \<open>string\<close> is a sequence of
  16-bit UTF-16 code units (which may contain unpaired surrogates). String literals of
  the source are written as Isabelle strings and injected with \<open>js\<close>.
\<close>

type_synonym byte = "8 word"
type_synonym code_unit = "16 word"
type_synonym jsstring = "code_unit list"
type_synonym buffer = "byte list"

definition byte_of :: "nat \<Rightarrow> byte" where
  "byte_of n = word_of_nat n"

definition unit_of :: "nat \<Rightarrow> code_unit" where
  "unit_of n = word_of_nat n"

definition js :: "string \<Rightarrow> jsstring" where
  "js s = map (\<lambda>c. unit_of (of_char c)) s"

text \<open>\<open>String.prototype.startsWith\<close> and \<open>String.prototype.substring(n)\<close>.\<close>

definition startsWith :: "jsstring \<Rightarrow> jsstring \<Rightarrow> bool" where
  "startsWith s p = (take (length p) s = p)"

definition substring :: "jsstring \<Rightarrow> nat \<Rightarrow> jsstring" where
  "substring s n = drop n s"

text \<open>Decimal rendering of a number, as template literals and \<open>Object.keys\<close> of an array give it.\<close>

fun decimal :: "nat \<Rightarrow> jsstring" where
  "decimal n = (if n < 10 then [unit_of (48 + n)]
                else decimal (n div 10) @ [unit_of (48 + n mod 10)])"

section \<open>Buffer encodings: \<open>'utf8'\<close>\<close>

definition is_high :: "code_unit \<Rightarrow> bool" where
  "is_high u = (0xD800 \<le> unat u \<and> unat u < 0xDC00)"

definition is_low :: "code_unit \<Rightarrow> bool" where
  "is_low u = (0xDC00 \<le> unat u \<and> unat u < 0xE000)"

text \<open>The UTF-8 bytes of U+FFFD, which stand for an unpaired surrogate.\<close>

definition replacement :: buffer where
  "replacement = [0xEF, 0xBF, 0xBD]"

text \<open>
  \<open>Buffer.from(text, 'utf8')\<close> (also what \<open>cipher.update(text, 'utf8')\<close> and
  \<open>pbkdf2Sync\<close> do with a string argument): a surrogate pair is one 4-byte sequence, an
  unpaired surrogate becomes U+FFFD.
\<close>

fun utf8_encode :: "jsstring \<Rightarrow> buffer" where
  "utf8_encode [] = []"
| "utf8_encode (u # us) =
    (let c = unat u in
     if c < 0x80 then byte_of c # utf8_encode us
     else if c < 0x800 then
       byte_of (0xC0 + c div 64) # byte_of (0x80 + c mod 64) # utf8_encode us
     else if is_high u then
       (case us of
          [] \<Rightarrow> replacement
        | l # rest \<Rightarrow>
            if is_low l then
              (let cp = 0x10000 + (c - 0xD800) * 1024 + (unat l - 0xDC00) in
               byte_of (0xF0 + cp div 262144) # byte_of (0x80 + cp div 4096 mod 64) #
               byte_of (0x80 + cp div 64 mod 64) # byte_of (0x80 + cp mod 64) #
               utf8_encode rest)
            else replacement @ utf8_encode us)
     else if is_low u then replacement @ utf8_encode us
     else byte_of (0xE0 + c div 4096) # byte_of (0x80 + c div 64 mod 64) #
          byte_of (0x80 + c mod 64) # utf8_encode us)"

definition in_range :: "nat \<Rightarrow> nat \<Rightarrow> byte \<Rightarrow> bool" where
  "in_range lo hi b = (lo \<le> unat b \<and> unat b \<le> hi)"

definition surrogate_pair :: "nat \<Rightarrow> jsstring" where
  "surrogate_pair cp =
     [unit_of (0xD800 + (cp - 0x10000) div 1024),
      unit_of (0xDC00 + (cp - 0x10000) mod 1024)]"

text \<open>
  \<open>buf.toString('utf8')\<close>: the WHATWG decoder. A byte that cannot start or continue a
  sequence yields U+FFFD and decoding resumes at that byte; no byte-order mark is removed.
\<close>

fun utf8_decode :: "buffer \<Rightarrow> jsstring" where
  "utf8_decode [] = []"
| "utf8_decode (b # bs) =
    (let b0 = unat b in
     if b0 < 0x80 then unit_of b0 # utf8_decode bs
     else if 0xC2 \<le> b0 \<and> b0 \<le> 0xDF then
       (case bs of
          [] \<Rightarrow> [unit_of 0xFFFD]
        | b1 # r1 \<Rightarrow>
            if in_range 0x80 0xBF b1
            then unit_of ((b0 - 0xC0) * 64 + (unat b1 - 0x80)) # utf8_decode r1
            else unit_of 0xFFFD # utf8_decode bs)
     else if 0xE0 \<le> b0 \<and> b0 \<le> 0xEF then
       (case bs of
          [] \<Rightarrow> [unit_of 0xFFFD]
        | b1 # r1 \<Rightarrow>
            if in_range (if b0 = 0xE0 then 0xA0 else 0x80) (if b0 = 0xED then 0x9F else 0xBF) b1
            then (case r1 of
                    [] \<Rightarrow> [unit_of 0xFFFD]
                  | b2 # r2 \<Rightarrow>
                      if in_range 0x80 0xBF b2
                      then unit_of ((b0 - 0xE0) * 4096 + (unat b1 - 0x80) * 64 + (unat b2 - 0x80))
                           # utf8_decode r2
                      else unit_of 0xFFFD # utf8_decode r1)
            else unit_of 0xFFFD # utf8_decode bs)
     else if 0xF0 \<le> b0 \<and> b0 \<le> 0xF4 then
       (case bs of
          [] \<Rightarrow> [unit_of 0xFFFD]
        | b1 # r1 \<Rightarrow>
            if in_range (if b0 = 0xF0 then 0x90 else 0x80) (if b0 = 0xF4 then 0x8F else 0xBF) b1
            then (case r1 of
                    [] \<Rightarrow> [unit_of 0xFFFD]
                  | b2 # r2 \<Rightarrow>
                      if in_range 0x80 0xBF b2
                      then (case r2 of
                              [] \<Rightarrow> [unit_of 0xFFFD]
                            | b3 # r3 \<Rightarrow>
                                if in_range 0x80 0xBF b3
                                then surrogate_pair ((b0 - 0xF0) * 262144 + (unat b1 - 0x80) * 4096 +
                                                     (unat b2 - 0x80) * 64 + (unat b3 - 0x80))
                                     @ utf8_decode r3
                                else unit_of 0xFFFD # utf8_decode r2)
                      else unit_of 0xFFFD # utf8_decode r1)
            else unit_of 0xFFFD # utf8_decode bs)
     else unit_of 0xFFFD # utf8_decode bs)"

text \<open>A string is well formed when every surrogate is half of a pair.\<close>

fun well_formed :: "jsstring \<Rightarrow> bool" where
  "well_formed [] = True"
| "well_formed (u # us) =
     (if is_high u then (case us of [] \<Rightarrow> False | l # rest \<Rightarrow> is_low l \<and> well_formed rest)
      else \<not> is_low u \<and> well_formed us)"

section \<open>Buffer encodings: \<open>'base64'\<close>\<close>

definition pad :: code_unit where
  "pad = unit_of 61"

definition b64_char :: "nat \<Rightarrow> code_unit" where
  "b64_char n =
     unit_of (if n < 26 then 65 + n else if n < 52 then 71 + n else if n < 62 then n - 4
              else if n = 62 then 43 else 47)"

text \<open>\<open>buf.toString('base64')\<close>: the standard alphabet, padded with \<open>=\<close>.\<close>

fun base64_encode :: "buffer \<Rightarrow> jsstring" where
  "base64_encode [] = []"
| "base64_encode [a] =
     [b64_char (unat a div 4), b64_char (unat a mod 4 * 16), pad, pad]"
| "base64_encode [a, b] =
     [b64_char (unat a div 4), b64_char (unat a mod 4 * 16 + unat b div 16),
      b64_char (unat b mod 16 * 4), pad]"
| "base64_encode (a # b # c # rest) =
     b64_char (unat a div 4) # b64_char (unat a mod 4 * 16 + unat b div 16) #
     b64_char (unat b mod 16 * 4 + unat c div 64) # b64_char (unat c mod 64) #
     base64_encode rest"

text \<open>
  \<open>Buffer.from(text, 'base64')\<close> looks at the low byte of each code unit. The value of
  a byte as a base64 character: both the standard and the URL-safe alphabet are accepted.
\<close>

definition low_byte :: "code_unit \<Rightarrow> nat" where
  "low_byte u = unat u mod 256"

definition unbase64 :: "nat \<Rightarrow> nat option" where
  "unbase64 c =
     (if 65 \<le> c \<and> c \<le> 90 then Some (c - 65)
      else if 97 \<le> c \<and> c \<le> 122 then Some (c - 71)
      else if 48 \<le> c \<and> c \<le> 57 then Some (c + 4)
      else if c = 43 \<or> c = 45 then Some 62
      else if c = 47 \<or> c = 95 then Some 63
      else None)"

text \<open>
  \<open>Buffer.from(text, 'base64')\<close> never throws: a code unit whose low byte is outside the
  alphabets is skipped, decoding stops at the first unit whose low byte is that of \<open>=\<close>,
  and an incomplete final group yields the bytes it determines.
\<close>

fun sextets :: "jsstring \<Rightarrow> nat list" where
  "sextets [] = []"
| "sextets (u # us) =
     (case unbase64 (low_byte u) of
        Some v \<Rightarrow> v # sextets us
      | None \<Rightarrow> if low_byte u = 61 then [] else sextets us)"

fun from_sextets :: "nat list \<Rightarrow> buffer" where
  "from_sextets (w # x # y # z # rest) =
     byte_of (w * 4 + x div 16) # byte_of (x mod 16 * 16 + y div 4) #
     byte_of (y mod 4 * 64 + z) # from_sextets rest"
| "from_sextets [w, x, y] = [byte_of (w * 4 + x div 16), byte_of (x mod 16 * 16 + y div 4)]"
| "from_sextets [w, x] = [byte_of (w * 4 + x div 16)]"
| "from_sextets _ = []"

definition base64_decode :: "jsstring \<Rightarrow> buffer" where
  "base64_decode s = from_sextets (sextets s)"

text \<open>\<open>buf.subarray(start, end)\<close> and \<open>buf.subarray(start)\<close>, which clamp to the buffer.\<close>

definition subarray :: "buffer \<Rightarrow> nat \<Rightarrow> nat \<Rightarrow> buffer" where
  "subarray data start end = take (end - start) (drop start data)"

definition subarray_from :: "buffer \<Rightarrow> nat \<Rightarrow> buffer" where
  "subarray_from data start = drop start data"

section \<open>The platform: Node's \<open>crypto\<close> module and \<open>JSON.parse\<close>\<close>

text \<open>
  The algorithms of the platform are parameters of the model: PBKDF2 (password bytes, salt,
  iterations, key length, digest name), the counter-mode encryption and decryption of
  AES-GCM (key, iv, data), its 16-byte authentication tag (key, iv, ciphertext), and
  \<open>JSON.parse\<close>.
\<close>

datatype json =
    JNull
  | JBool bool
  | JNumber rat
  | JString jsstring
  | JArray "json list"
  | JObject "(jsstring \<times> json) list"

record platform =
  pbkdf2 :: "buffer \<Rightarrow> buffer \<Rightarrow> nat \<Rightarrow> nat \<Rightarrow> string \<Rightarrow> buffer"
  aes_gcm_encrypt :: "buffer \<Rightarrow> buffer \<Rightarrow> buffer \<Rightarrow> buffer"
  aes_gcm_decrypt :: "buffer \<Rightarrow> buffer \<Rightarrow> buffer \<Rightarrow> buffer"
  aes_gcm_tag :: "buffer \<Rightarrow> buffer \<Rightarrow> buffer \<Rightarrow> buffer"
  JSON_parse :: "jsstring \<Rightarrow> json option"

text \<open>
  What the model relies on: PBKDF2 returns as many bytes as asked for, decryption inverts
  encryption under the same key and iv, and a tag has 16 bytes.
\<close>

definition crypto_ok :: "platform \<Rightarrow> bool" where
  "crypto_ok P \<longleftrightarrow>
     (\<forall>pw salt iters n dg. length (pbkdf2 P pw salt iters n dg) = n) \<and>
     (\<forall>key iv pt. aes_gcm_decrypt P key iv (aes_gcm_encrypt P key iv pt) = pt) \<and>
     (\<forall>key iv ct. length (aes_gcm_tag P key iv ct) = 16)"

text \<open>The errors the \<open>crypto\<close> module throws, with their messages.\<close>

datatype error =
    UnknownCipher
  | InvalidKeyLength
  | InvalidIV
  | InvalidAuthTagLength nat
  | AuthenticationFailed

fun error_message :: "error \<Rightarrow> jsstring" where
  "error_message UnknownCipher = js ''Unknown cipher''"
| "error_message InvalidKeyLength = js ''Invalid key length''"
| "error_message InvalidIV = js ''Invalid initialization vector''"
| "error_message (InvalidAuthTagLength n) = js ''Invalid authentication tag length: '' @ decimal n"
| "error_message AuthenticationFailed = js ''Unsupported state or unable to authenticate data''"

text \<open>\<open>crypto.randomBytes(n)\<close> draws from a random source, which it advances.\<close>

type_synonym rng = "nat \<Rightarrow> byte"

definition randomBytes :: "nat \<Rightarrow> rng \<Rightarrow> buffer \<times> rng" where
  "randomBytes n r = (map r [0..<n], \<lambda>i. r (i + n))"

text \<open>\<open>crypto.pbkdf2Sync\<close> with a string password: the password is taken as UTF-8.\<close>

definition pbkdf2Sync ::
  "platform \<Rightarrow> jsstring \<Rightarrow> buffer \<Rightarrow> nat \<Rightarrow> nat \<Rightarrow> string \<Rightarrow> buffer" where
  "pbkdf2Sync P password salt iterations keylen digest =
     pbkdf2 P (utf8_encode password) salt iterations keylen digest"

text \<open>
  \<open>createCipheriv(algorithm, key, iv)\<close>, \<open>update\<close>, \<open>final\<close> and \<open>getAuthTag\<close>. The
  only cipher of the model is \<open>aes-256-gcm\<close>: the iv must not be empty and the key must
  have 32 bytes; the result is the ciphertext and its tag.
\<close>

definition gcm_seal ::
  "platform \<Rightarrow> string \<Rightarrow> buffer \<Rightarrow> buffer \<Rightarrow> buffer \<Rightarrow> error + buffer \<times> buffer" where
  "gcm_seal P algorithm key iv plain =
     (if algorithm \<noteq> ''aes-256-gcm'' then Inl UnknownCipher
      else if iv = [] then Inl InvalidIV
      else if length key \<noteq> 32 then Inl InvalidKeyLength
      else (let encrypted = aes_gcm_encrypt P key iv plain
            in Inr (encrypted, aes_gcm_tag P key iv encrypted)))"

text \<open>
  \<open>createDecipheriv(algorithm, key, iv)\<close>, \<open>setAuthTag(tag)\<close>, \<open>update\<close> and \<open>final\<close>:
  \<open>setAuthTag\<close> accepts a tag of 4, 8 or 12 to 16 bytes, and \<open>final\<close> compares it with
  the leading bytes of the tag computed from the ciphertext.
\<close>

definition valid_tag_length :: "nat \<Rightarrow> bool" where
  "valid_tag_length n = (n = 4 \<or> n = 8 \<or> (12 \<le> n \<and> n \<le> 16))"

definition gcm_open ::
  "platform \<Rightarrow> string \<Rightarrow> buffer \<Rightarrow> buffer \<Rightarrow> buffer \<Rightarrow> buffer \<Rightarrow> error + buffer" where
  "gcm_open P algorithm key iv tag encrypted =
     (if algorithm \<noteq> ''aes-256-gcm'' then Inl UnknownCipher
      else if iv = [] then Inl InvalidIV
      else if length key \<noteq> 32 then Inl InvalidKeyLength
      else if \<not> valid_tag_length (length tag) then Inl (InvalidAuthTagLength (length tag))
      else if take (length tag) (aes_gcm_tag P key iv encrypted) = tag
           then Inr (aes_gcm_decrypt P key iv encrypted)
           else Inl AuthenticationFailed)"

section \<open>encryptionHelper.ts\<close>

definition ALGORITHM :: string where "ALGORITHM = ''aes-256-gcm''"
definition IV_LENGTH :: nat where "IV_LENGTH = 16"
definition SALT_LENGTH :: nat where "SALT_LENGTH = 64"
definition TAG_LENGTH :: nat where "TAG_LENGTH = 16"
definition ITERATIONS :: nat where "ITERATIONS = 100000"

text \<open>
  \<open>encrypt(text, password)\<close>; the same function is repeated in the command-line script.
  The result comes with the advanced random source.
\<close>

definition encrypt ::
  "platform \<Rightarrow> rng \<Rightarrow> jsstring \<Rightarrow> jsstring \<Rightarrow> (error + jsstring) \<times> rng" where
  "encrypt P r text password =
     (let (salt, r1) = randomBytes SALT_LENGTH r;
          (iv, r2) = randomBytes IV_LENGTH r1;
          key = pbkdf2Sync P password salt ITERATIONS 32 ''sha512''
      in (case gcm_seal P ALGORITHM key iv (utf8_encode text) of
            Inl e \<Rightarrow> Inl e
          | Inr (encrypted, tag) \<Rightarrow> Inr (base64_encode (salt @ iv @ tag @ encrypted)),
          r2))"

text \<open>\<open>decrypt(encryptedData, password)\<close>.\<close>

definition decrypt :: "platform \<Rightarrow> jsstring \<Rightarrow> jsstring \<Rightarrow> error + jsstring" where
  "decrypt P encryptedData password =
     (let data = base64_decode encryptedData;
          salt = subarray data 0 SALT_LENGTH;
          iv = subarray data SALT_LENGTH (SALT_LENGTH + IV_LENGTH);
          tag = subarray data (SALT_LENGTH + IV_LENGTH) (SALT_LENGTH + IV_LENGTH + TAG_LENGTH);
          encrypted = subarray_from data (SALT_LENGTH + IV_LENGTH + TAG_LENGTH);
          key = pbkdf2Sync P password salt ITERATIONS 32 ''sha512''
      in (case gcm_open P ALGORITHM key iv tag encrypted of
            Inl e \<Rightarrow> Inl e
          | Inr decrypted \<Rightarrow> Inr (utf8_decode decrypted)))"

section \<open>jsonhelper.ts\<close>

text \<open>
  A parsed document. An object is the list of its entries in the order of
  \<open>Object.keys\<close>; \<open>JSON.parse\<close> gives every object distinct keys.
\<close>

fun truthy :: "json \<Rightarrow> bool" where
  "truthy JNull = False"
| "truthy (JBool b) = b"
| "truthy (JNumber n) = (n \<noteq> 0)"
| "truthy (JString s) = (s \<noteq> [])"
| "truthy (JArray xs) = True"
| "truthy (JObject kvs) = True"

text \<open>
  \<open>v?.name\<close> for the two names the source reads, \<open>credentials\<close> and \<open>password\<close>: only an
  object can have them; \<open>None\<close> is \<open>undefined\<close>.
\<close>

definition get_prop :: "jsstring \<Rightarrow> json \<Rightarrow> json option" where
  "get_prop name v = (case v of JObject kvs \<Rightarrow> map_of kvs name | _ \<Rightarrow> None)"

definition password_of :: "json \<Rightarrow> json option" where
  "password_of v =
     (case get_prop (js ''credentials'') v of
        None \<Rightarrow> None
      | Some c \<Rightarrow> get_prop (js ''password'') c)"

text \<open>The assignment \<open>data[env].credentials.password = s\<close>.\<close>

definition set_password :: "json \<Rightarrow> jsstring \<Rightarrow> json" where
  "set_password v s =
     (case v of
        JObject kvs \<Rightarrow>
          (case map_of kvs (js ''credentials'') of
             Some (JObject cs) \<Rightarrow>
               JObject (AList.update (js ''credentials'')
                          (JObject (AList.update (js ''password'') (JString s) cs)) kvs)
           | _ \<Rightarrow> v)
      | _ \<Rightarrow> v)"

datatype load_error =
    ReadError
  | ParseError
  | MissingEncryptionKey
  | DecryptionFailed jsstring error

fun message :: "load_error \<Rightarrow> jsstring" where
  "message ReadError = []"
| "message ParseError = []"
| "message MissingEncryptionKey =
     js ''ENCRYPTION_KEY environment variable is required to decrypt passwords. '' @
     js ''Set it with: export ENCRYPTION_KEY='' @ [unit_of 34] @ js ''your-key-here'' @ [unit_of 34]"
| "message (DecryptionFailed env e) =
     js ''Failed to decrypt password for '' @ env @ js '' environment. '' @
     js ''Verify ENCRYPTION_KEY is correct. Error: '' @ error_message e"

text \<open>
  The body of the \<open>forEach\<close> callback for one entry. It returns the entry's new value or
  the error thrown, and adds the calls of \<open>decrypt\<close> it makes to the counter.
\<close>

definition visit_env ::
  "platform \<Rightarrow> jsstring option \<Rightarrow> jsstring \<Rightarrow> json \<Rightarrow> nat \<Rightarrow> (load_error + json) \<times> nat" where
  "visit_env P encryptionKey env v calls =
     (case password_of v of
        None \<Rightarrow> (Inr v, calls)
      | Some pw \<Rightarrow>
          if \<not> truthy pw then (Inr v, calls)
          else (case pw of
                  JString password \<Rightarrow>
                    if startsWith password (js ''encrypted:'') then
                      (case encryptionKey of
                         None \<Rightarrow> (Inl MissingEncryptionKey, calls)
                       | Some k \<Rightarrow>
                           if k = [] then (Inl MissingEncryptionKey, calls)
                           else (case decrypt P (substring password (length (js ''encrypted:''))) k of
                                   Inl e \<Rightarrow> (Inl (DecryptionFailed env e), Suc calls)
                                 | Inr plain \<Rightarrow> (Inr (set_password v plain), Suc calls)))
                    else (Inr v, calls)
                | _ \<Rightarrow> (Inr v, calls)))"

text \<open>\<open>Object.keys(data).forEach(...)\<close>: the entries in order, stopping at the first throw.\<close>

fun forEach_env ::
  "platform \<Rightarrow> jsstring option \<Rightarrow> (jsstring \<times> json) list \<Rightarrow> nat \<Rightarrow>
   (load_error + (jsstring \<times> json) list) \<times> nat" where
  "forEach_env P encryptionKey [] calls = (Inr [], calls)"
| "forEach_env P encryptionKey ((env, v) # rest) calls =
     (case visit_env P encryptionKey env v calls of
        (Inl e, calls1) \<Rightarrow> (Inl e, calls1)
      | (Inr v1, calls1) \<Rightarrow>
          (case forEach_env P encryptionKey rest calls1 of
             (Inl e, calls2) \<Rightarrow> (Inl e, calls2)
           | (Inr rest1, calls2) \<Rightarrow> (Inr ((env, v1) # rest1), calls2)))"

text \<open>
  The part of \<open>readJsonFile\<close> after parsing: an object or an array (whose keys are its
  indices) is visited, any other value is returned as it is.
\<close>

definition decrypt_passwords ::
  "platform \<Rightarrow> jsstring option \<Rightarrow> json \<Rightarrow> (load_error + json) \<times> nat" where
  "decrypt_passwords P encryptionKey data =
     (case data of
        JObject kvs \<Rightarrow>
          (case forEach_env P encryptionKey kvs 0 of
             (Inl e, calls) \<Rightarrow> (Inl e, calls)
           | (Inr kvs1, calls) \<Rightarrow> (Inr (JObject kvs1), calls))
      | JArray xs \<Rightarrow>
          (case forEach_env P encryptionKey (zip (map decimal [0..<length xs]) xs) 0 of
             (Inl e, calls) \<Rightarrow> (Inl e, calls)
           | (Inr kvs1, calls) \<Rightarrow> (Inr (JArray (map snd kvs1)), calls))
      | _ \<Rightarrow> (Inr data, 0))"

text \<open>The process's surroundings: the file system and the environment variables.\<close>

record world =
  readFileSync :: "jsstring \<Rightarrow> jsstring option"
  env :: "string \<Rightarrow> jsstring option"

definition readJsonFile_run ::
  "platform \<Rightarrow> world \<Rightarrow> jsstring \<Rightarrow> (load_error + json) \<times> nat" where
  "readJsonFile_run P w filePath =
     (case readFileSync w filePath of
        None \<Rightarrow> (Inl ReadError, 0)
      | Some rawData \<Rightarrow>
          (case JSON_parse P rawData of
             None \<Rightarrow> (Inl ParseError, 0)
           | Some data \<Rightarrow> decrypt_passwords P (env w ''ENCRYPTION_KEY'') data))"

text \<open>\<open>readJsonFile(filePath)\<close>, and the number of calls of \<open>decrypt\<close> it makes.\<close>

definition readJsonFile :: "platform \<Rightarrow> world \<Rightarrow> jsstring \<Rightarrow> load_error + json" where
  "readJsonFile P w filePath = fst (readJsonFile_run P w filePath)"

definition decrypt_calls :: "platform \<Rightarrow> world \<Rightarrow> jsstring \<Rightarrow> nat" where
  "decrypt_calls P w filePath = snd (readJsonFile_run P w filePath)"

section \<open>encryptPassword.ts\<close>

text \<open>
  The command-line script asks for the password and the encryption key and writes to the
  console; it writes no file. Its run is the list of console writes, in order, and the
  exit code. \<open>rl.question\<close> writes its prompt to standard output.
\<close>

datatype stream = Stdout | Stderr

definition newline :: code_unit where
  "newline = unit_of 10"

definition quote :: code_unit where
  "quote = unit_of 34"

definition console_log :: "jsstring \<Rightarrow> stream \<times> jsstring" where
  "console_log s = (Stdout, s @ [newline])"

definition console_error :: "jsstring \<Rightarrow> stream \<times> jsstring" where
  "console_error s = (Stderr, s @ [newline])"

definition encryptPassword ::
  "platform \<Rightarrow> rng \<Rightarrow> jsstring \<Rightarrow> jsstring \<Rightarrow> (stream \<times> jsstring) list \<times> nat" where
  "encryptPassword P r password encryptionKey =
     (let prompts =
            [console_log (js ''=== Password Encryption Utility ==='' @ [newline]),
             (Stdout, js ''Enter password to encrypt: ''),
             (Stdout, js ''Enter encryption key (store in ENCRYPTION_KEY env var): '')]
      in if password = [] \<or> encryptionKey = [] then
           (prompts @
            [console_error (newline # js ''Error: Both password and encryption key are required'')],
            1)
         else
           (case fst (encrypt P r password encryptionKey) of
              Inr encrypted \<Rightarrow>
                (prompts @
                 [console_log ([newline, unit_of 0x2713] @ js '' Password encrypted successfully!'' @
                               [newline]),
                  console_log (js ''Add this to config.json:''),
                  console_log ([quote] @ js ''password'' @ [quote] @ js '': '' @ [quote] @
                               js ''encrypted:'' @ encrypted @ [quote, newline]),
                  console_log (js ''Set this environment variable locally:''),
                  console_log (js ''export ENCRYPTION_KEY='' @ [quote] @ encryptionKey @ [quote]),
                  console_log (newline #
                               js ''For GitHub Actions, add ENCRYPTION_KEY to repository secrets.'' @
                               [newline])],
                 0)
            | Inl e \<Rightarrow>
                (prompts @ [console_error (newline # js ''Error: '' @ error_message e)], 0)))"

section \<open>Notions of the specification\<close>

text \<open>
  The environment entries of a document, as \<open>Object.keys\<close> enumerates them: the entries
  of an object, the indexed elements of an array.
\<close>

definition entries :: "json \<Rightarrow> (jsstring \<times> json) list" where
  "entries data =
     (case data of
        JObject kvs \<Rightarrow> kvs
      | JArray xs \<Rightarrow> zip (map decimal [0..<length xs]) xs
      | _ \<Rightarrow> [])"

text \<open>An entry bears the marker when its password field is a string that starts with it.\<close>

definition marked :: "json \<Rightarrow> bool" where
  "marked v =
     (case password_of v of
        Some (JString s) \<Rightarrow> startsWith s (js ''encrypted:'')
      | _ \<Rightarrow> False)"

text \<open>The envelope text of a marked entry: its password field without the marker.\<close>

definition payload :: "json \<Rightarrow> jsstring" where
  "payload v =
     (case password_of v of
        Some (JString s) \<Rightarrow> substring s (length (js ''encrypted:''))
      | _ \<Rightarrow> [])"

text \<open>
  Two entry values differ at most in \<open>credentials.password\<close>: the same keys in the same
  order at both levels, and the same value under every other key.
\<close>

definition only_password_differs :: "json \<Rightarrow> json \<Rightarrow> bool" where
  "only_password_differs v v' \<longleftrightarrow>
     (\<exists>kvs kvs' cs cs'.
        v = JObject kvs \<and> v' = JObject kvs' \<and> map fst kvs' = map fst kvs \<and>
        (\<forall>k. k \<noteq> js ''credentials'' \<longrightarrow> map_of kvs' k = map_of kvs k) \<and>
        map_of kvs (js ''credentials'') = Some (JObject cs) \<and>
        map_of kvs' (js ''credentials'') = Some (JObject cs') \<and>
        map fst cs' = map fst cs \<and>
        (\<forall>k. k \<noteq> js ''password'' \<longrightarrow> map_of cs' k = map_of cs k))"

text \<open>The salt and the iv that a call of \<open>encrypt\<close> draws from the random source.\<close>

definition drawn_salt :: "rng \<Rightarrow> buffer" where
  "drawn_salt r = fst (randomBytes SALT_LENGTH r)"

definition drawn_iv :: "rng \<Rightarrow> buffer" where
  "drawn_iv r = fst (randomBytes IV_LENGTH (snd (randomBytes SALT_LENGTH r)))"



text \<open>\<open>decrypt(encrypt(p, k1), k2)\<close>, with the random source of the call of \<open>encrypt\<close>.\<close>

definition decrypt_encrypted ::
  "platform \<Rightarrow> rng \<Rightarrow> jsstring \<Rightarrow> jsstring \<Rightarrow> jsstring \<Rightarrow> error + jsstring" where
  "decrypt_encrypted P r p k1 k2 =
     (case fst (encrypt P r p k1) of
        Inl e \<Rightarrow> Inl e
      | Inr envelope \<Rightarrow> decrypt P envelope k2)"

text \<open>Two documents are of the same kind: both objects, both arrays, or equal.\<close>

definition same_kind :: "json \<Rightarrow> json \<Rightarrow> bool" where
  "same_kind d d' =
     (case d of
        JObject kvs \<Rightarrow> (case d' of JObject kvs' \<Rightarrow> True | _ \<Rightarrow> False)
      | JArray xs \<Rightarrow> (case d' of JArray xs' \<Rightarrow> length xs' = length xs | _ \<Rightarrow> False)
      | _ \<Rightarrow> d' = d)"

section \<open>A small platform for concrete runs\<close>

text \<open>
  A platform with the shape of the real one and none of its strength: the derived key
  sums the password and salt bytes, encryption masks every byte with one value, and the
  tag is a checksum. It satisfies \<open>crypto_ok\<close>. Its parser knows two file contents: a
  document whose second password is the envelope of \<open>p\<close> under the key \<open>k\<close>, and one
  whose password is too short to be an envelope.
\<close>

definition toy_sum :: "buffer \<Rightarrow> nat" where
  "toy_sum bs = sum_list (map unat bs)"

definition toy_pbkdf2 :: "buffer \<Rightarrow> buffer \<Rightarrow> nat \<Rightarrow> nat \<Rightarrow> string \<Rightarrow> buffer" where
  "toy_pbkdf2 pw salt iters n dg = map (\<lambda>i. byte_of (toy_sum pw + toy_sum salt + i)) [0..<n]"

definition toy_crypt :: "buffer \<Rightarrow> buffer \<Rightarrow> buffer \<Rightarrow> buffer" where
  "toy_crypt key iv bs = map (\<lambda>b. b XOR byte_of (toy_sum key + toy_sum iv)) bs"

definition toy_tag :: "buffer \<Rightarrow> buffer \<Rightarrow> buffer \<Rightarrow> buffer" where
  "toy_tag key iv ct = map (\<lambda>i. byte_of (toy_sum key + toy_sum iv + toy_sum ct + i)) [0..<16]"

definition sample_document :: json where
  "sample_document =
     JObject [(js ''QA'',
               JObject [(js ''baseURL'', JString (js ''https://qa.example.org'')),
                        (js ''credentials'',
                         JObject [(js ''username'', JString (js ''tester'')),
                                  (js ''password'', JString (js ''plainPass123''))])]),
              (js ''UAT'',
               JObject [(js ''baseURL'', JString (js ''https://uat.example.org'')),
                        (js ''credentials'',
                         JObject [(js ''username'', JString (js ''tester'')),
                                  (js ''password'',
                                   JString (js ''encrypted:AAECAwQFBgcICQoLDA0ODxAREhMUFRYXGBkaGxwdHh8gISIjJCUmJygpKissLS4vMDEyMzQ1Njc4OTo7PD0+P0BBQkNERUZHSElKS0xNTk+AgYKDhIWGh4iJiouMjY6PuA==''))])])]"

definition resolved_document :: json where
  "resolved_document =
     JObject [(js ''QA'',
               JObject [(js ''baseURL'', JString (js ''https://qa.example.org'')),
                        (js ''credentials'',
                         JObject [(js ''username'', JString (js ''tester'')),
                                  (js ''password'', JString (js ''plainPass123''))])]),
              (js ''UAT'',
               JObject [(js ''baseURL'', JString (js ''https://uat.example.org'')),
                        (js ''credentials'',
                         JObject [(js ''username'', JString (js ''tester'')),
                                  (js ''password'', JString (js ''p''))])])]"

definition broken_document :: json where
  "broken_document =
     JObject [(js ''QA'',
               JObject [(js ''baseURL'', JString (js ''https://qa.example.org'')),
                        (js ''credentials'',
                         JObject [(js ''username'', JString (js ''tester'')),
                                  (js ''password'', JString (js ''encrypted:AAEC''))])])]"

definition toy_parse :: "jsstring \<Rightarrow> json option" where
  "toy_parse rawData =
     (if rawData = js ''sample'' then Some sample_document
      else if rawData = js ''broken'' then Some broken_document
      else None)"

definition toy :: platform where
  "toy = \<lparr> pbkdf2 = toy_pbkdf2, aes_gcm_encrypt = toy_crypt, aes_gcm_decrypt = toy_crypt,
           aes_gcm_tag = toy_tag, JSON_parse = toy_parse \<rparr>"

definition counting :: rng where
  "counting = (\<lambda>i. byte_of i)"

definition zeros :: rng where
  "zeros = (\<lambda>i. 0)"

definition sample_files :: "jsstring \<Rightarrow> jsstring option" where
  "sample_files filePath =
     (if filePath = js ''config.json'' then Some (js ''sample'')
      else if filePath = js ''broken.json'' then Some (js ''broken'')
      else None)"

definition world_without_key :: world where
  "world_without_key = \<lparr> readFileSync = sample_files, env = (\<lambda>name. None) \<rparr>"

definition world_with_empty_key :: world where
  "world_with_empty_key =
     \<lparr> readFileSync = sample_files,
       env = (\<lambda>name. if name = ''ENCRYPTION_KEY'' then Some [] else None) \<rparr>"

definition world_with_key :: world where
  "world_with_key =
     \<lparr> readFileSync = sample_files,
       env = (\<lambda>name. if name = ''ENCRYPTION_KEY'' then Some (js ''k'') else None) \<rparr>"

section \<open>Words, bytes and base64\<close>

lemma unat_byte_of: "n < 256 \<Longrightarrow> unat (byte_of n) = n"
  by (simp add: byte_of_def unat_of_nat)

lemma unat_unit_of: "n < 65536 \<Longrightarrow> unat (unit_of n) = n"
  by (simp add: unit_of_def unat_of_nat)

lemma unit_of_unat: "unit_of (unat u) = u"
  by (simp add: unit_of_def)

lemma byte_of_unat: "byte_of (unat b) = b"
  by (simp add: byte_of_def)

lemma unit_bound: "unat (u :: code_unit) < 65536"
  using unsigned_less [of u] by simp

lemma byte_bound: "unat (b :: byte) < 256"
  using unsigned_less [of b] by simp

lemma low_byte_b64_char:
  "n < 64 \<Longrightarrow> low_byte (b64_char n) =
     (if n < 26 then 65 + n else if n < 52 then 71 + n else if n < 62 then n - 4
      else if n = 62 then 43 else 47)"
  by (simp add: low_byte_def b64_char_def unat_unit_of)

lemma unbase64_b64_char: "n < 64 \<Longrightarrow> unbase64 (low_byte (b64_char n)) = Some n"
  by (auto simp add: low_byte_b64_char unbase64_def)

lemma low_byte_pad: "low_byte pad = 61"
  by (simp add: low_byte_def pad_def unat_unit_of)

lemma sextets_char: "n < 64 \<Longrightarrow> sextets (b64_char n # cs) = n # sextets cs"
  by (simp add: unbase64_b64_char)

lemma sextets_pad: "sextets (pad # cs) = []"
  by (simp add: low_byte_pad unbase64_def)

lemma regroup_first: "b < 256 \<Longrightarrow> a div 4 * 4 + (a mod 4 * 16 + b div 16) div 16 = (a::nat)"
  by simp

lemma regroup_second:
  assumes "b < 256" "c < 256"
  shows "(a mod 4 * 16 + b div 16) mod 16 * 16 + (b mod 16 * 4 + c div 64) div 4 = (b::nat)"
proof -
  have "b div 16 < 16" using assms(1) by simp
  then have "(a mod 4 * 16 + b div 16) mod 16 = b div 16" by simp
  moreover have "c div 64 < 4" using assms(2) by simp
  then have "(b mod 16 * 4 + c div 64) div 4 = b mod 16" by simp
  ultimately show ?thesis by simp
qed

lemma regroup_third:
  assumes "c < 256"
  shows "(b mod 16 * 4 + c div 64) mod 4 * 64 + c mod 64 = (c::nat)"
proof -
  have "c div 64 < 4" using assms by simp
  then have "(b mod 16 * 4 + c div 64) mod 4 = c div 64" by simp
  then show ?thesis by simp
qed

lemma from_sextets_one:
  "from_sextets [unat a div 4, unat a mod 4 * 16] = [a]"
proof -
  have "unat a div 4 * 4 + unat a mod 4 * 16 div 16 = unat a" by simp
  then show ?thesis by (simp add: byte_of_unat)
qed

lemma from_sextets_two:
  "from_sextets [unat a div 4, unat a mod 4 * 16 + unat b div 16, unat b mod 16 * 4] = [a, b]"
proof -
  have "unat a div 4 * 4 + (unat a mod 4 * 16 + unat b div 16) div 16 = unat a"
    using byte_bound [of b] by (rule regroup_first)
  moreover have "(unat a mod 4 * 16 + unat b div 16) mod 16 * 16 + unat b mod 16 * 4 div 4 = unat b"
    using regroup_second [of "unat b" 0 "unat a"] byte_bound [of b] by simp
  ultimately show ?thesis by (simp add: byte_of_unat)
qed

lemma from_sextets_three:
  "from_sextets (unat a div 4 # (unat a mod 4 * 16 + unat b div 16) #
                 (unat b mod 16 * 4 + unat c div 64) # unat c mod 64 # rest) =
   a # b # c # from_sextets rest"
proof -
  have "unat a div 4 * 4 + (unat a mod 4 * 16 + unat b div 16) div 16 = unat a"
    using byte_bound [of b] by (rule regroup_first)
  moreover have "(unat a mod 4 * 16 + unat b div 16) mod 16 * 16 +
                 (unat b mod 16 * 4 + unat c div 64) div 4 = unat b"
    using byte_bound [of b] byte_bound [of c] by (rule regroup_second)
  moreover have "(unat b mod 16 * 4 + unat c div 64) mod 4 * 64 + unat c mod 64 = unat c"
    using byte_bound [of c] by (rule regroup_third)
  ultimately show ?thesis by (simp add: byte_of_unat)
qed

lemma sextet_bounds:
  "unat (a :: byte) div 4 < 64" "unat a mod 4 * 16 < 64"
  "unat a mod 4 * 16 + unat (b :: byte) div 16 < 64"
  "unat b mod 16 * 4 < 64" "unat b mod 16 * 4 + unat (c :: byte) div 64 < 64"
  "unat c mod 64 < 64"
proof -
  have a: "unat a < 256" and b: "unat b < 256" and c: "unat c < 256"
    by (rule byte_bound)+
  show "unat a div 4 < 64" using a by simp
  have m4: "unat a mod 4 < 4" by simp
  then show "unat a mod 4 * 16 < 64" by linarith
  have "unat b div 16 < 16" using b by simp
  with m4 show "unat a mod 4 * 16 + unat b div 16 < 64" by linarith
  have m16: "unat b mod 16 < 16" by simp
  then show "unat b mod 16 * 4 < 64" by linarith
  have "unat c div 64 < 4" using c by simp
  with m16 show "unat b mod 16 * 4 + unat c div 64 < 64" by linarith
  show "unat c mod 64 < 64" by simp
qed

lemma base64_roundtrip: "base64_decode (base64_encode bs) = bs"
  unfolding base64_decode_def
proof (induction bs rule: base64_encode.induct)
  case 1
  show ?case by simp
next
  case (2 a)
  show ?case
    by (simp only: base64_encode.simps sextets_char sextet_bounds sextets_pad from_sextets_one)
next
  case (3 a b)
  show ?case
    by (simp only: base64_encode.simps sextets_char sextet_bounds sextets_pad from_sextets_two)
next
  case (4 a b c rest)
  then show ?case
    by (simp only: base64_encode.simps sextets_char sextet_bounds from_sextets_three)
qed

subsection \<open>UTF-8: decoding inverts encoding on well-formed strings\<close>

lemma decode_ascii:
  "unat b < 0x80 \<Longrightarrow> utf8_decode (b # bs) = unit_of (unat b) # utf8_decode bs"
  by (simp add: Let_def)

lemma decode_two:
  "0xC2 \<le> unat b0 \<Longrightarrow> unat b0 \<le> 0xDF \<Longrightarrow> in_range 0x80 0xBF b1 \<Longrightarrow>
   utf8_decode (b0 # b1 # bs) =
     unit_of ((unat b0 - 0xC0) * 64 + (unat b1 - 0x80)) # utf8_decode bs"
  by (simp add: Let_def)

lemma decode_three:
  "0xE0 \<le> unat b0 \<Longrightarrow> unat b0 \<le> 0xEF \<Longrightarrow>
   in_range (if unat b0 = 0xE0 then 0xA0 else 0x80) (if unat b0 = 0xED then 0x9F else 0xBF) b1 \<Longrightarrow>
   in_range 0x80 0xBF b2 \<Longrightarrow>
   utf8_decode (b0 # b1 # b2 # bs) =
     unit_of ((unat b0 - 0xE0) * 4096 + (unat b1 - 0x80) * 64 + (unat b2 - 0x80))
     # utf8_decode bs"
  by (simp add: Let_def)

lemma decode_four:
  "0xF0 \<le> unat b0 \<Longrightarrow> unat b0 \<le> 0xF4 \<Longrightarrow>
   in_range (if unat b0 = 0xF0 then 0x90 else 0x80) (if unat b0 = 0xF4 then 0x8F else 0xBF) b1 \<Longrightarrow>
   in_range 0x80 0xBF b2 \<Longrightarrow> in_range 0x80 0xBF b3 \<Longrightarrow>
   utf8_decode (b0 # b1 # b2 # b3 # bs) =
     surrogate_pair ((unat b0 - 0xF0) * 262144 + (unat b1 - 0x80) * 4096 +
                     (unat b2 - 0x80) * 64 + (unat b3 - 0x80))
     @ utf8_decode bs"
  by (simp add: Let_def)

lemma encode_ascii:
  "unat u < 0x80 \<Longrightarrow> utf8_encode (u # us) = byte_of (unat u) # utf8_encode us"
  by (simp add: Let_def)

lemma encode_two:
  "\<not> unat u < 0x80 \<Longrightarrow> unat u < 0x800 \<Longrightarrow>
   utf8_encode (u # us) =
     byte_of (0xC0 + unat u div 64) # byte_of (0x80 + unat u mod 64) # utf8_encode us"
  by (simp add: Let_def)

lemma encode_three:
  "\<not> unat u < 0x800 \<Longrightarrow> \<not> is_high u \<Longrightarrow> \<not> is_low u \<Longrightarrow>
   utf8_encode (u # us) =
     byte_of (0xE0 + unat u div 4096) # byte_of (0x80 + unat u div 64 mod 64) #
     byte_of (0x80 + unat u mod 64) # utf8_encode us"
  by (simp add: Let_def)

lemma encode_pair:
  "is_high u \<Longrightarrow> is_low l \<Longrightarrow>
   utf8_encode (u # l # us) =
     (let cp = 0x10000 + (unat u - 0xD800) * 1024 + (unat l - 0xDC00) in
      byte_of (0xF0 + cp div 262144) # byte_of (0x80 + cp div 4096 mod 64) #
      byte_of (0x80 + cp div 64 mod 64) # byte_of (0x80 + cp mod 64) # utf8_encode us)"
  by (simp add: Let_def is_high_def)

lemma split3: "(c::nat) = c div 4096 * 4096 + c div 64 mod 64 * 64 + c mod 64"
proof -
  have "c div 4096 = c div 64 div 64" using div_mult2_eq [of c 64 64] by simp
  moreover have "c div 64 = c div 64 div 64 * 64 + c div 64 mod 64" by simp
  moreover have "c = c div 64 * 64 + c mod 64" by simp
  ultimately show ?thesis by linarith
qed

lemma split4:
  "(c::nat) = c div 262144 * 262144 + c div 4096 mod 64 * 4096 + c div 64 mod 64 * 64 + c mod 64"
proof -
  have "c div 262144 = c div 4096 div 64" using div_mult2_eq [of c 4096 64] by simp
  moreover have "c div 4096 = c div 4096 div 64 * 64 + c div 4096 mod 64" by simp
  moreover have "c div 4096 * 4096 + c div 64 mod 64 * 64 + c mod 64 = c"
    using split3 [of c] by simp
  ultimately show ?thesis by linarith
qed

lemma roundtrip_ascii:
  assumes "unat u < 0x80"
  shows "utf8_decode (utf8_encode (u # us)) = u # utf8_decode (utf8_encode us)"
proof -
  have enc: "utf8_encode (u # us) = byte_of (unat u) # utf8_encode us"
    using assms by (rule encode_ascii)
  have b: "unat (byte_of (unat u)) = unat u"
    using assms by (simp add: unat_byte_of)
  have "utf8_decode (byte_of (unat u) # utf8_encode us) =
        unit_of (unat (byte_of (unat u))) # utf8_decode (utf8_encode us)"
    using assms by (intro decode_ascii) (simp add: b)
  then show ?thesis
    by (simp only: enc b unit_of_unat)
qed

lemma roundtrip_two:
  assumes "\<not> unat u < 0x80" "unat u < 0x800"
  shows "utf8_decode (utf8_encode (u # us)) = u # utf8_decode (utf8_encode us)"
proof -
  define q where "q = unat u div 64"
  define z where "z = unat u mod 64"
  have enc: "utf8_encode (u # us) = byte_of (0xC0 + q) # byte_of (0x80 + z) # utf8_encode us"
    unfolding q_def z_def using assms by (rule encode_two)
  have s: "unat u = q * 64 + z" by (simp add: q_def z_def)
  have z: "z < 64" by (simp add: z_def)
  have q: "2 \<le> q" "q < 32" using assms s z by linarith+
  have b0: "unat (byte_of (0xC0 + q)) = 0xC0 + q"
    using q by (intro unat_byte_of) simp
  have b1: "unat (byte_of (0x80 + z)) = 0x80 + z"
    using z by (intro unat_byte_of) simp
  have "utf8_decode (byte_of (0xC0 + q) # byte_of (0x80 + z) # utf8_encode us) =
        unit_of ((unat (byte_of (0xC0 + q)) - 0xC0) * 64 + (unat (byte_of (0x80 + z)) - 0x80))
        # utf8_decode (utf8_encode us)"
    using q z by (intro decode_two) (simp_all add: b0 b1 in_range_def)
  moreover have "(unat (byte_of (0xC0 + q)) - 0xC0) * 64 + (unat (byte_of (0x80 + z)) - 0x80)
                 = unat u"
    using s by (simp add: b0 b1)
  ultimately show ?thesis
    by (simp only: enc unit_of_unat)
qed

lemma roundtrip_three:
  assumes "\<not> unat u < 0x800" "\<not> is_high u" "\<not> is_low u"
  shows "utf8_decode (utf8_encode (u # us)) = u # utf8_decode (utf8_encode us)"
proof -
  define c where "c = unat u"
  define q where "q = c div 4096"
  define y where "y = c div 64 mod 64"
  define z where "z = c mod 64"
  have enc: "utf8_encode (u # us) =
      byte_of (0xE0 + q) # byte_of (0x80 + y) # byte_of (0x80 + z) # utf8_encode us"
    unfolding q_def y_def z_def c_def using assms by (rule encode_three)
  have c: "c < 65536" unfolding c_def by (rule unit_bound)
  have s: "c = q * 4096 + y * 64 + z"
    unfolding q_def y_def z_def by (rule split3)
  have y: "y < 64" and z: "z < 64" by (simp_all add: y_def z_def)
  have q: "q < 16" using s c by linarith
  have b0: "unat (byte_of (0xE0 + q)) = 0xE0 + q"
    using q by (intro unat_byte_of) simp
  have b1: "unat (byte_of (0x80 + y)) = 0x80 + y"
    using y by (intro unat_byte_of) simp
  have b2: "unat (byte_of (0x80 + z)) = 0x80 + z"
    using z by (intro unat_byte_of) simp
  have sur: "c < 0xD800 \<or> 0xE000 \<le> c"
    using assms by (auto simp: is_high_def is_low_def c_def)
  have lo: "q = 0 \<Longrightarrow> 32 \<le> y"
    using assms(1) s z unfolding c_def [symmetric] by linarith
  have hi: "q = 13 \<Longrightarrow> y \<le> 31"
    using sur s y z by linarith
  have "utf8_decode (byte_of (0xE0 + q) # byte_of (0x80 + y) # byte_of (0x80 + z) # utf8_encode us)
        = unit_of ((unat (byte_of (0xE0 + q)) - 0xE0) * 4096 + (unat (byte_of (0x80 + y)) - 0x80) * 64
                   + (unat (byte_of (0x80 + z)) - 0x80))
        # utf8_decode (utf8_encode us)"
  proof (intro decode_three)
    show "0xE0 \<le> unat (byte_of (0xE0 + q))" "unat (byte_of (0xE0 + q)) \<le> 0xEF"
      using q by (simp_all add: b0)
    show "in_range 0x80 0xBF (byte_of (0x80 + z))"
      using z by (simp add: b2 in_range_def)
    show "in_range (if unat (byte_of (0xE0 + q)) = 0xE0 then 0xA0 else 0x80)
            (if unat (byte_of (0xE0 + q)) = 0xED then 0x9F else 0xBF) (byte_of (0x80 + y))"
      using lo hi y by (auto simp add: b0 b1 in_range_def)
  qed
  moreover have "(unat (byte_of (0xE0 + q)) - 0xE0) * 4096 + (unat (byte_of (0x80 + y)) - 0x80) * 64
                 + (unat (byte_of (0x80 + z)) - 0x80) = unat u"
    using s by (simp add: b0 b1 b2 c_def)
  ultimately show ?thesis
    by (simp only: enc unit_of_unat)
qed

lemma roundtrip_pair:
  assumes "is_high u" "is_low l"
  shows "utf8_decode (utf8_encode (u # l # us)) = u # l # utf8_decode (utf8_encode us)"
proof -
  define h where "h = unat u - 0xD800"
  define t where "t = unat l - 0xDC00"
  define cp where "cp = 0x10000 + h * 1024 + t"
  define q where "q = cp div 262144"
  define x where "x = cp div 4096 mod 64"
  define y where "y = cp div 64 mod 64"
  define z where "z = cp mod 64"
  have enc: "utf8_encode (u # l # us) =
      byte_of (0xF0 + q) # byte_of (0x80 + x) # byte_of (0x80 + y) # byte_of (0x80 + z)
      # utf8_encode us"
    using assms by (simp only: encode_pair Let_def cp_def h_def t_def q_def x_def y_def z_def)
  have h: "h < 1024" and hu: "unat u = 0xD800 + h"
    using assms(1) unfolding is_high_def h_def by linarith+
  have t: "t < 1024" and tl: "unat l = 0xDC00 + t"
    using assms(2) unfolding is_low_def t_def by linarith+
  have lo_cp: "0x10000 \<le> cp" and hi_cp: "cp < 0x110000"
    using h t unfolding cp_def by linarith+
  have s: "cp = q * 262144 + x * 4096 + y * 64 + z"
    unfolding q_def x_def y_def z_def by (rule split4)
  have x: "x < 64" and y: "y < 64" and z: "z < 64"
    by (simp_all add: x_def y_def z_def)
  have q: "q \<le> 4" using s hi_cp by linarith
  have b0: "unat (byte_of (0xF0 + q)) = 0xF0 + q"
    using q by (intro unat_byte_of) simp
  have b1: "unat (byte_of (0x80 + x)) = 0x80 + x"
    using x by (intro unat_byte_of) simp
  have b2: "unat (byte_of (0x80 + y)) = 0x80 + y"
    using y by (intro unat_byte_of) simp
  have b3: "unat (byte_of (0x80 + z)) = 0x80 + z"
    using z by (intro unat_byte_of) simp
  have lo: "q = 0 \<Longrightarrow> 16 \<le> x"
    using lo_cp s y z by linarith
  have hi: "q = 4 \<Longrightarrow> x \<le> 15"
    using hi_cp s by linarith
  have "utf8_decode (byte_of (0xF0 + q) # byte_of (0x80 + x) # byte_of (0x80 + y) #
                     byte_of (0x80 + z) # utf8_encode us) =
        surrogate_pair ((unat (byte_of (0xF0 + q)) - 0xF0) * 262144 +
                        (unat (byte_of (0x80 + x)) - 0x80) * 4096 +
                        (unat (byte_of (0x80 + y)) - 0x80) * 64 +
                        (unat (byte_of (0x80 + z)) - 0x80))
        @ utf8_decode (utf8_encode us)"
  proof (intro decode_four)
    show "0xF0 \<le> unat (byte_of (0xF0 + q))" "unat (byte_of (0xF0 + q)) \<le> 0xF4"
      using q by (simp_all add: b0)
    show "in_range 0x80 0xBF (byte_of (0x80 + y))" "in_range 0x80 0xBF (byte_of (0x80 + z))"
      using y z by (simp_all add: b2 b3 in_range_def)
    show "in_range (if unat (byte_of (0xF0 + q)) = 0xF0 then 0x90 else 0x80)
            (if unat (byte_of (0xF0 + q)) = 0xF4 then 0x8F else 0xBF) (byte_of (0x80 + x))"
      using lo hi x by (auto simp add: b0 b1 in_range_def)
  qed
  moreover have "(unat (byte_of (0xF0 + q)) - 0xF0) * 262144 +
                 (unat (byte_of (0x80 + x)) - 0x80) * 4096 +
                 (unat (byte_of (0x80 + y)) - 0x80) * 64 +
                 (unat (byte_of (0x80 + z)) - 0x80) = cp"
    using s by (simp add: b0 b1 b2 b3)
  moreover have "surrogate_pair cp = [u, l]"
  proof -
    have "cp - 0x10000 = h * 1024 + t" by (simp add: cp_def)
    moreover have "(h * 1024 + t) div 1024 = h" "(h * 1024 + t) mod 1024 = t"
      using t by simp_all
    ultimately have "surrogate_pair cp = [unit_of (unat u), unit_of (unat l)]"
      by (simp add: surrogate_pair_def hu tl)
    then show ?thesis by (simp only: unit_of_unat)
  qed
  ultimately show ?thesis
    by (simp only: enc append.simps)
qed

lemma utf8_roundtrip: "well_formed s \<Longrightarrow> utf8_decode (utf8_encode s) = s"
proof (induction s rule: well_formed.induct)
  case 1
  show ?case by simp
next
  case (2 u us)
  show ?case
  proof (cases "is_high u")
    case True
    with "2.prems" obtain l rest where us: "us = l # rest" and l: "is_low l"
      and wf: "well_formed rest"
      by (auto split: list.splits)
    from "2.IH"(1) [OF True us] wf l have "utf8_decode (utf8_encode rest) = rest"
      by simp
    with roundtrip_pair [OF True l, of rest] show ?thesis
      by (simp only: us)
  next
    case False
    with "2.prems" have nl: "\<not> is_low u" and wf: "well_formed us" by simp_all
    from "2.IH"(2) [OF False] wf have ih: "utf8_decode (utf8_encode us) = us"
      by simp
    consider "unat u < 0x80" | "\<not> unat u < 0x80" "unat u < 0x800" | "\<not> unat u < 0x800"
      by linarith
    then show ?thesis
    proof cases
      case 1
      then show ?thesis using roundtrip_ascii [of u us] ih by simp
    next
      case 2
      then show ?thesis using roundtrip_two [of u us] ih by simp
    next
      case 3
      then show ?thesis using roundtrip_three [OF _ False nl, of us] ih by simp
    qed
  qed
qed

subsection \<open>The codec\<close>

lemma length_drawn: "length (drawn_salt r) = 64" "length (drawn_iv r) = 16"
  by (simp_all add: drawn_salt_def drawn_iv_def randomBytes_def SALT_LENGTH_def IV_LENGTH_def)

lemma crypto_ok_key: "crypto_ok P \<Longrightarrow> length (pbkdf2Sync P k salt iters n dg) = n"
  by (simp add: crypto_ok_def pbkdf2Sync_def)

lemma crypto_ok_tag: "crypto_ok P \<Longrightarrow> length (aes_gcm_tag P key iv ct) = 16"
  by (simp add: crypto_ok_def)

lemma crypto_ok_inverse:
  "crypto_ok P \<Longrightarrow> aes_gcm_decrypt P key iv (aes_gcm_encrypt P key iv pt) = pt"
  by (simp add: crypto_ok_def)

text \<open>What \<open>encrypt\<close> returns, written out.\<close>

lemma encrypt_envelope:
  assumes "crypto_ok P"
  shows "fst (encrypt P r text password) =
         Inr (base64_encode
               (drawn_salt r @ drawn_iv r @
                aes_gcm_tag P (pbkdf2Sync P password (drawn_salt r) ITERATIONS 32 ''sha512'')
                  (drawn_iv r)
                  (aes_gcm_encrypt P (pbkdf2Sync P password (drawn_salt r) ITERATIONS 32 ''sha512'')
                     (drawn_iv r) (utf8_encode text)) @
                aes_gcm_encrypt P (pbkdf2Sync P password (drawn_salt r) ITERATIONS 32 ''sha512'')
                  (drawn_iv r) (utf8_encode text)))"
proof -
  have iv: "drawn_iv r \<noteq> []"
    using length_drawn(2) [of r] by auto
  show ?thesis
    using iv crypto_ok_key [OF assms]
    by (simp add: encrypt_def gcm_seal_def ALGORITHM_def Let_def split_def drawn_salt_def
        drawn_iv_def)
qed

text \<open>What \<open>decrypt\<close> does with the text of any buffer.\<close>

lemma decrypt_slices:
  "decrypt P (base64_encode data) password =
     (case gcm_open P ALGORITHM (pbkdf2Sync P password (take 64 data) ITERATIONS 32 ''sha512'')
             (take 16 (drop 64 data)) (take 16 (drop 80 data)) (drop 96 data) of
        Inl e \<Rightarrow> Inl e
      | Inr decrypted \<Rightarrow> Inr (utf8_decode decrypted))"
  by (simp add: decrypt_def base64_roundtrip subarray_def subarray_from_def Let_def
      SALT_LENGTH_def IV_LENGTH_def TAG_LENGTH_def)

lemma decrypt_parts:
  assumes "length salt = 64" "length iv = 16" "length tag = 16"
  shows "decrypt P (base64_encode (salt @ iv @ tag @ ct)) password =
     (case gcm_open P ALGORITHM (pbkdf2Sync P password salt ITERATIONS 32 ''sha512'') iv tag ct of
        Inl e \<Rightarrow> Inl e
      | Inr decrypted \<Rightarrow> Inr (utf8_decode decrypted))"
  using assms by (simp add: decrypt_slices)

lemma gcm_open_16:
  assumes "crypto_ok P" "length key = 32" "length iv = 16" "length tag = 16"
  shows "gcm_open P ALGORITHM key iv tag ct =
         (if tag = aes_gcm_tag P key iv ct then Inr (aes_gcm_decrypt P key iv ct)
          else Inl AuthenticationFailed)"
proof -
  have "iv \<noteq> []" using assms(3) by auto
  moreover have "take 16 (aes_gcm_tag P key iv ct) = aes_gcm_tag P key iv ct"
    using crypto_ok_tag [OF assms(1), of key iv ct] by simp
  ultimately show ?thesis
    using assms by (auto simp add: gcm_open_def ALGORITHM_def valid_tag_length_def)
qed

lemma decrypt_encrypted_general:
  assumes "crypto_ok P"
  shows "decrypt_encrypted P r p k k = Inr (utf8_decode (utf8_encode p))"
proof -
  let ?key = "pbkdf2Sync P k (drawn_salt r) ITERATIONS 32 ''sha512''"
  let ?ct = "aes_gcm_encrypt P ?key (drawn_iv r) (utf8_encode p)"
  let ?tag = "aes_gcm_tag P ?key (drawn_iv r) ?ct"
  have key: "length ?key = 32" by (rule crypto_ok_key [OF assms])
  have tag: "length ?tag = 16" by (rule crypto_ok_tag [OF assms])
  have "decrypt P (base64_encode (drawn_salt r @ drawn_iv r @ ?tag @ ?ct)) k =
        Inr (utf8_decode (aes_gcm_decrypt P ?key (drawn_iv r) ?ct))"
    by (simp add: decrypt_parts [OF length_drawn tag]
        gcm_open_16 [OF assms key length_drawn(2) tag])
  then show ?thesis
    by (simp add: decrypt_encrypted_def encrypt_envelope [OF assms] crypto_ok_inverse [OF assms])
qed


subsection \<open>The small platform\<close>

lemma toy_crypt_twice: "toy_crypt key iv (toy_crypt key iv bs) = bs"
proof -
  have "(b XOR m) XOR m = b" for b m :: byte
    by (simp add: xor.assoc)
  then show ?thesis
    by (simp add: toy_crypt_def comp_def)
qed

lemma toy_ok: "crypto_ok toy"
  by (simp add: crypto_ok_def toy_def toy_pbkdf2_def toy_crypt_twice toy_tag_def)

lemma decrypt_of_encrypt:
  assumes "crypto_ok P" "fst (encrypt P r p k) = Inr e"
  shows "decrypt P e k = Inr (utf8_decode (utf8_encode p))"
  using decrypt_encrypted_general [OF assms(1), of r p k] assms(2)
  by (simp add: decrypt_encrypted_def)


lemma utf8_encode_js_k: "utf8_encode (js ''k'') = [107]"
  by (simp add: js_def unit_of_def byte_of_def)

lemma drawn_differ: "drawn_salt counting \<noteq> drawn_salt zeros"
proof
  assume "drawn_salt counting = drawn_salt zeros"
  then have "drawn_salt counting ! 1 = drawn_salt zeros ! 1" by simp
  then show False
    by (simp add: drawn_salt_def randomBytes_def SALT_LENGTH_def counting_def zeros_def byte_of_def)
qed


lemma sample_envelope:
  "fst (encrypt toy counting (js ''p'') (js ''k'')) =
   Inr (js ''AAECAwQFBgcICQoLDA0ODxAREhMUFRYXGBkaGxwdHh8gISIjJCUmJygpKissLS4vMDEyMzQ1Njc4OTo7PD0+P0BBQkNERUZHSElKS0xNTk+AgYKDhIWGh4iJiouMjY6PuA=='')"
  by (simp add: encrypt_def gcm_seal_def ALGORITHM_def randomBytes_def SALT_LENGTH_def IV_LENGTH_def
      ITERATIONS_def pbkdf2Sync_def toy_def toy_pbkdf2_def toy_crypt_def toy_tag_def toy_sum_def
      counting_def js_def unit_of_def byte_of_def b64_char_def pad_def upt_rec Let_def)




















text \<open>Texts that decode to fewer than 96 bytes.\<close>

lemma sextets_low_byte: "sextets (replicate n (0x141::code_unit)) = replicate n 0"
  by (induction n) (simp_all add: unbase64_def low_byte_def)

lemma four_more: "replicate (4 * Suc n) x = x # x # x # x # replicate (4 * n) x"
proof -
  have "4 * Suc n = Suc (Suc (Suc (Suc (4 * n))))" by simp
  then show ?thesis by (simp only: replicate.simps)
qed

lemma from_sextets_zeros:
  "from_sextets (replicate (4 * n) 0) = replicate (3 * n) 0"
proof (induction n)
  case 0
  show ?case by simp
next
  case (Suc n)
  have "replicate (3 * Suc n) (0::byte) = 0 # 0 # 0 # replicate (3 * n) 0"
  proof -
    have "3 * Suc n = Suc (Suc (Suc (3 * n)))" by simp
    then show ?thesis by (simp only: replicate.simps)
  qed
  moreover have "from_sextets (replicate (4 * Suc n) 0) = 0 # 0 # 0 # from_sextets (replicate (4 * n) 0)"
    by (simp only: four_more from_sextets.simps) (simp add: byte_of_def)
  ultimately show ?case using Suc by simp
qed

lemma decode_low_byte: "base64_decode (replicate 108 0x141) = replicate 81 0"
  using from_sextets_zeros [of 27] by (simp add: base64_decode_def sextets_low_byte)

lemma decode_zeros:
  "base64_decode (js ''AAAAAAAAAAAAAAAAAAAAAAAAAAAAAAAAAAAAAAAAAAAAAAAAAAAAAAAAAAAAAAAAAAAAAAAAAAAAAAAAAAAAAAAAAAAAAAAAAAAAAAAAAAAAAAAAAAAAAAAAAAA='')
   = map (\<lambda>i. 0) [0..<92]"
  by (simp add: base64_decode_def js_def unit_of_def unbase64_def low_byte_def pad_def byte_of_def upt_rec)

lemma decode_short_tag:
  "base64_decode (js ''AAECAwQFBgcICQoLDA0ODxAREhMUFRYXGBkaGxwdHh8gISIjJCUmJygpKissLS4vMDEyMzQ1Njc4OTo7PD0+P0BBQkNERUZHSElKS0xNTk/IycrLzM3Oz9DR0tM='')
   = map byte_of [0..<80] @ map byte_of [200..<212]"
  by (simp add: base64_decode_def js_def unit_of_def unbase64_def low_byte_def pad_def byte_of_def upt_rec)


section \<open>Claims about the codec\<close>

text \<open>
  C1 (amended). For every well-formed plaintext string (no unpaired surrogate; the empty
  string and non-ASCII text included), every passphrase and every state of the random
  source, \<open>decrypt(encrypt(p, k), k)\<close> returns \<open>p\<close>.
\<close>

theorem C1_roundtrip:
  assumes "crypto_ok P" and "well_formed p"
  shows "decrypt_encrypted P r p k k = Inr p"
  using decrypt_encrypted_general [OF assms(1), of r p k] utf8_roundtrip [OF assms(2)]
  by simp

theorem C1_roundtrip_witness:
  "crypto_ok toy \<and>
   well_formed (js ''Automation@Tester@1990'' @ [0xE9, 0x20AC, 0xD83D, 0xDE00]) \<and>
   decrypt_encrypted toy counting (js ''Automation@Tester@1990'' @ [0xE9, 0x20AC, 0xD83D, 0xDE00])
     (js ''correct-horse-battery-staple'') (js ''correct-horse-battery-staple'') =
   Inr (js ''Automation@Tester@1990'' @ [0xE9, 0x20AC, 0xD83D, 0xDE00])"
proof -
  have wf: "well_formed (js ''Automation@Tester@1990'' @ [0xE9, 0x20AC, 0xD83D, 0xDE00])"
    by (simp add: js_def unit_of_def is_high_def is_low_def)
  show ?thesis
    using toy_ok wf C1_roundtrip [OF toy_ok wf] by simp
qed

text \<open>
  C1 as stated fails for a string with an unpaired surrogate: the UTF-8 encoding replaces
  it by U+FFFD, which is what comes back.
\<close>

theorem C1_unpaired_surrogate:
  "decrypt_encrypted toy counting [0xD800] (js ''k'') (js ''k'') \<noteq> Inr [0xD800]"
  by (simp add: decrypt_encrypted_general [OF toy_ok] is_high_def is_low_def replacement_def
      in_range_def Let_def unit_of_def)




text \<open>
  C3 (amended). \<open>decrypt\<close> checks neither the base64 text nor the length of what it
  decodes to, and has no error of its own for a malformed envelope: \<open>Buffer.from\<close> skips
  what is not base64 (reading the low byte of every code unit) and never throws. For an
  input that decodes to fewer than 96 bytes the ciphertext slice is empty and the outcome
  is that of the cipher, after the key has been derived: up to 64 bytes the iv slice is
  empty and \<open>createDecipheriv\<close> throws; otherwise \<open>setAuthTag\<close> throws unless the tag
  slice has 4, 8 or 12 to 15 bytes; with such a shortened tag \<open>decrypt\<close> fails with
  \<open>AuthenticationFailed\<close> unless the slice is the beginning of the tag of the empty
  ciphertext, and then it returns the decryption of the empty ciphertext.
\<close>

theorem C3_short_envelope:
  assumes "crypto_ok P" and "length (base64_decode s) < 96"
  shows "decrypt P s k =
     (let data = base64_decode s;
          n = length data;
          key = pbkdf2Sync P k (take 64 data) ITERATIONS 32 ''sha512'';
          iv = take 16 (drop 64 data)
      in if n \<le> 64 then Inl InvalidIV
         else if \<not> valid_tag_length (n - 80) then Inl (InvalidAuthTagLength (n - 80))
         else if take (n - 80) (aes_gcm_tag P key iv []) = drop 80 data
              then Inr (utf8_decode (aes_gcm_decrypt P key iv []))
              else Inl AuthenticationFailed)"
proof -
  define data where "data = base64_decode s"
  have n: "length data < 96" using assms(2) by (simp add: data_def)
  have key: "length (pbkdf2Sync P k (take 64 data) ITERATIONS 32 ''sha512'') = 32"
    by (rule crypto_ok_key [OF assms(1)])
  have tag: "take 16 (drop 80 data) = drop 80 data" using n by simp
  have ct: "drop 96 data = []" using n by simp
  have len: "length (drop 80 data) = length data - 80" by simp
  have iv: "take 16 (drop 64 data) = [] \<longleftrightarrow> length data \<le> 64" by auto
  have "decrypt P s k =
        (case gcm_open P ALGORITHM (pbkdf2Sync P k (take 64 data) ITERATIONS 32 ''sha512'')
                (take 16 (drop 64 data)) (drop 80 data) [] of
           Inl e \<Rightarrow> Inl e
         | Inr decrypted \<Rightarrow> Inr (utf8_decode decrypted))"
    using tag ct
    by (simp add: decrypt_def data_def [symmetric] subarray_def subarray_from_def Let_def
        SALT_LENGTH_def IV_LENGTH_def TAG_LENGTH_def)
  then show ?thesis
    using key iv len
    by (simp add: gcm_open_def ALGORITHM_def data_def [symmetric] Let_def)
qed

theorem C3_short_envelope_witness:
  "crypto_ok toy \<and>
   length (base64_decode (js ''AAEC'')) < 96 \<and>
   decrypt toy (js ''AAEC'') (js ''k'') = Inl InvalidIV \<and>
   length (base64_decode (replicate 108 0x141)) < 96 \<and>
   decrypt toy (replicate 108 0x141) (js ''k'') = Inl (InvalidAuthTagLength 1) \<and>
   length (base64_decode (js ''AAECAwQFBgcICQoLDA0ODxAREhMUFRYXGBkaGxwdHh8gISIjJCUmJygpKissLS4vMDEyMzQ1Njc4OTo7PD0+P0BBQkNERUZHSElKS0xNTk/IycrLzM3Oz9DR0tM='')) < 96 \<and>
   decrypt toy (js ''AAECAwQFBgcICQoLDA0ODxAREhMUFRYXGBkaGxwdHh8gISIjJCUmJygpKissLS4vMDEyMzQ1Njc4OTo7PD0+P0BBQkNERUZHSElKS0xNTk/IycrLzM3Oz9DR0tM='') (js ''k'') = Inr []"
proof -
  let ?s = "js ''AAECAwQFBgcICQoLDA0ODxAREhMUFRYXGBkaGxwdHh8gISIjJCUmJygpKissLS4vMDEyMzQ1Njc4OTo7PD0+P0BBQkNERUZHSElKS0xNTk/IycrLzM3Oz9DR0tM=''"
  have d: "base64_decode (js ''AAEC'') = [0, 1, 2]"
    by (simp add: base64_decode_def js_def unit_of_def unbase64_def low_byte_def pad_def byte_of_def)
  then have len1: "length (base64_decode (js ''AAEC'')) < 96" by simp
  have len2: "length (base64_decode (replicate 108 0x141)) < 96"
    by (simp add: decode_low_byte)
  have len3: "length (base64_decode ?s) < 96"
    by (simp add: decode_short_tag)
  have one: "decrypt toy (js ''AAEC'') (js ''k'') = Inl InvalidIV"
    using C3_short_envelope [OF toy_ok len1, of "js ''k''"] by (simp add: d Let_def)
  have two: "decrypt toy (replicate 108 0x141) (js ''k'') = Inl (InvalidAuthTagLength 1)"
    using C3_short_envelope [OF toy_ok len2, of "js ''k''"]
    by (simp add: decode_low_byte valid_tag_length_def Let_def)
  have three: "decrypt toy ?s (js ''k'') = Inr []"
    using C3_short_envelope [OF toy_ok len3, of "js ''k''"]
    by (simp add: decode_short_tag valid_tag_length_def ITERATIONS_def pbkdf2Sync_def
        utf8_encode_js_k toy_def toy_pbkdf2_def toy_crypt_def toy_tag_def toy_sum_def
        byte_of_def upt_rec Let_def)
  from toy_ok len1 one len2 two len3 three show ?thesis by simp
qed

text \<open>
  C3 as stated fails: the first text below decodes to 92 zero bytes, a salt, an iv and a
  tag of 12 bytes, and \<open>decrypt\<close> derives the key, decrypts and fails with
  \<open>AuthenticationFailed\<close>; the empty text decodes to no byte and \<open>decrypt\<close> fails with
  the error of \<open>createDecipheriv\<close> for an empty iv.
\<close>

theorem C3_other_errors:
  "length (base64_decode (js ''AAAAAAAAAAAAAAAAAAAAAAAAAAAAAAAAAAAAAAAAAAAAAAAAAAAAAAAAAAAAAAAAAAAAAAAAAAAAAAAAAAAAAAAAAAAAAAAAAAAAAAAAAAAAAAAAAAAAAAAAAAA='')) = 92 \<and>
   decrypt toy (js ''AAAAAAAAAAAAAAAAAAAAAAAAAAAAAAAAAAAAAAAAAAAAAAAAAAAAAAAAAAAAAAAAAAAAAAAAAAAAAAAAAAAAAAAAAAAAAAAAAAAAAAAAAAAAAAAAAAAAAAAAAAA='') (js ''k'') = Inl AuthenticationFailed \<and>
   length (base64_decode []) = 0 \<and>
   decrypt toy [] (js ''k'') = Inl InvalidIV"
proof -
  have "decrypt toy (js ''AAAAAAAAAAAAAAAAAAAAAAAAAAAAAAAAAAAAAAAAAAAAAAAAAAAAAAAAAAAAAAAAAAAAAAAAAAAAAAAAAAAAAAAAAAAAAAAAAAAAAAAAAAAAAAAAAAAAAAAAAAA='') (js ''k'') = Inl AuthenticationFailed"
    unfolding decrypt_def decode_zeros
    by (simp add: gcm_open_def ALGORITHM_def valid_tag_length_def subarray_def subarray_from_def
        SALT_LENGTH_def IV_LENGTH_def TAG_LENGTH_def ITERATIONS_def pbkdf2Sync_def
        utf8_encode_js_k toy_def toy_pbkdf2_def toy_crypt_def toy_tag_def toy_sum_def
        byte_of_def upt_rec Let_def)
  moreover have "decrypt toy [] (js ''k'') = Inl InvalidIV"
    by (simp add: decrypt_def base64_decode_def gcm_open_def ALGORITHM_def subarray_def
        subarray_from_def SALT_LENGTH_def IV_LENGTH_def TAG_LENGTH_def Let_def)
  moreover have "length (base64_decode []) = 0"
    by (simp add: base64_decode_def)
  ultimately show ?thesis by (simp add: decode_zeros)
qed

text \<open>
  C4. \<open>encrypt\<close> returns the base64 text of salt (64 bytes), iv (16 bytes), tag (16 bytes)
  and ciphertext, in this order, where salt and iv are drawn from the random source, the
  key has 32 bytes (256 bits) and comes from PBKDF2 over the passphrase and the salt with
  100000 iterations and SHA-512, the ciphertext is the AES-GCM encryption of the UTF-8
  plaintext and the tag is its tag. \<open>decrypt\<close> cuts the decoded bytes at the offsets
  0, 64, 80 and 96 and derives the key with the same parameters.
\<close>

theorem C4_envelope_format:
  assumes "crypto_ok P"
  shows "(let salt = drawn_salt r;
              iv = drawn_iv r;
              key = pbkdf2 P (utf8_encode k) salt 100000 32 ''sha512'';
              ct = aes_gcm_encrypt P key iv (utf8_encode p);
              tag = aes_gcm_tag P key iv ct
          in length salt = 64 \<and> length iv = 16 \<and> length tag = 16 \<and> length key = 32 \<and>
             fst (encrypt P r p k) = Inr (base64_encode (salt @ iv @ tag @ ct))) \<and>
         decrypt P (base64_encode data) k' =
           (case gcm_open P ''aes-256-gcm'' (pbkdf2 P (utf8_encode k') (take 64 data) 100000 32 ''sha512'')
                   (take 16 (drop 64 data)) (take 16 (drop 80 data)) (drop 96 data) of
              Inl e \<Rightarrow> Inl e
            | Inr decrypted \<Rightarrow> Inr (utf8_decode decrypted))"
  using crypto_ok_key [OF assms] crypto_ok_tag [OF assms] encrypt_envelope [OF assms, of r p k]
    decrypt_slices [of P data k']
  by (simp add: Let_def length_drawn pbkdf2Sync_def ITERATIONS_def ALGORITHM_def)

theorem C4_envelope_format_witness:
  "crypto_ok toy \<and>
   length (drawn_salt counting) = 64 \<and> length (drawn_iv counting) = 16 \<and>
   fst (encrypt toy counting (js ''p'') (js ''k'')) =
     Inr (base64_encode
           (drawn_salt counting @ drawn_iv counting @
            toy_tag (toy_pbkdf2 (utf8_encode (js ''k'')) (drawn_salt counting) 100000 32 ''sha512'')
              (drawn_iv counting)
              (toy_crypt (toy_pbkdf2 (utf8_encode (js ''k'')) (drawn_salt counting) 100000 32 ''sha512'')
                 (drawn_iv counting) (utf8_encode (js ''p''))) @
            toy_crypt (toy_pbkdf2 (utf8_encode (js ''k'')) (drawn_salt counting) 100000 32 ''sha512'')
              (drawn_iv counting) (utf8_encode (js ''p'')))) \<and>
   decrypt toy (base64_encode [1, 2, 3]) (js ''k'') = Inl InvalidIV"
proof -
  have "gcm_open toy ''aes-256-gcm'' (toy_pbkdf2 (utf8_encode (js ''k'')) [1, 2, 3] 100000 32 ''sha512'') [] [] []
        = Inl InvalidIV"
    by (simp add: gcm_open_def toy_pbkdf2_def)
  with C4_envelope_format [OF toy_ok, of counting "js ''k''" "js ''p''" "[1, 2, 3]" "js ''k''"]
  show ?thesis
    using toy_ok by (simp add: Let_def toy_def)
qed

text \<open>
  C8 (amended). For every well-formed plaintext and every passphrase, two calls of
  \<open>encrypt\<close> whose random draws differ in the salt or in the iv return two different
  envelope texts, and \<open>decrypt\<close> returns the plaintext from both.
\<close>

theorem C8_fresh_randomness:
  assumes "crypto_ok P" and "well_formed p"
    and "drawn_salt r1 \<noteq> drawn_salt r2 \<or> drawn_iv r1 \<noteq> drawn_iv r2"
  shows "\<exists>e1 e2. fst (encrypt P r1 p k) = Inr e1 \<and> fst (encrypt P r2 p k) = Inr e2 \<and>
           e1 \<noteq> e2 \<and> decrypt P e1 k = Inr p \<and> decrypt P e2 k = Inr p"
proof -
  obtain d1 where e1: "fst (encrypt P r1 p k) = Inr (base64_encode d1)"
    and d1: "take 64 d1 = drawn_salt r1" "take 16 (drop 64 d1) = drawn_iv r1"
    using encrypt_envelope [OF assms(1), of r1 p k] by (simp add: length_drawn)
  obtain d2 where e2: "fst (encrypt P r2 p k) = Inr (base64_encode d2)"
    and d2: "take 64 d2 = drawn_salt r2" "take 16 (drop 64 d2) = drawn_iv r2"
    using encrypt_envelope [OF assms(1), of r2 p k] by (simp add: length_drawn)
  have "base64_encode d1 \<noteq> base64_encode d2"
  proof
    assume "base64_encode d1 = base64_encode d2"
    then have "base64_decode (base64_encode d1) = base64_decode (base64_encode d2)" by simp
    then have "d1 = d2" by (simp only: base64_roundtrip)
    with d1 d2 assms(3) show False by simp
  qed
  moreover have "decrypt P (base64_encode d1) k = Inr p" "decrypt P (base64_encode d2) k = Inr p"
    using decrypt_of_encrypt [OF assms(1) e1] decrypt_of_encrypt [OF assms(1) e2]
      utf8_roundtrip [OF assms(2)] by simp_all
  ultimately show ?thesis using e1 e2 by blast
qed

theorem C8_fresh_randomness_witness:
  "crypto_ok toy \<and> well_formed (js ''p'') \<and> drawn_salt counting \<noteq> drawn_salt zeros \<and>
   (\<exists>e1 e2. fst (encrypt toy counting (js ''p'') (js ''k'')) = Inr e1 \<and>
      fst (encrypt toy zeros (js ''p'') (js ''k'')) = Inr e2 \<and> e1 \<noteq> e2 \<and>
      decrypt toy e1 (js ''k'') = Inr (js ''p'') \<and> decrypt toy e2 (js ''k'') = Inr (js ''p''))"
proof -
  have wf: "well_formed (js ''p'')"
    by (simp add: js_def unit_of_def is_high_def is_low_def)
  have draws: "drawn_salt counting \<noteq> drawn_salt zeros \<or> drawn_iv counting \<noteq> drawn_iv zeros"
    using drawn_differ by simp
  from C8_fresh_randomness [OF toy_ok wf draws, of "js ''k''"] show ?thesis
    using toy_ok wf drawn_differ by simp
qed

text \<open>
  C8 as stated fails for a plaintext with an unpaired surrogate: the draws differ, but
  what \<open>decrypt\<close> returns is not the plaintext.
\<close>

theorem C8_unpaired_surrogate:
  "drawn_salt counting \<noteq> drawn_salt zeros \<and>
   decrypt_encrypted toy zeros [0xDC00] (js ''k'') (js ''k'') \<noteq> Inr [0xDC00]"
  using drawn_differ
  by (simp add: decrypt_encrypted_general [OF toy_ok] is_high_def is_low_def replacement_def
      in_range_def Let_def unit_of_def)

section \<open>The resolver\<close>

lemma marker_not_empty: "js ''encrypted:'' \<noteq> []"
  by (simp add: js_def)

lemma startsWith_marker_not_empty: "startsWith s (js ''encrypted:'') \<Longrightarrow> s \<noteq> []"
  using marker_not_empty by (auto simp add: startsWith_def)

lemma markedE:
  assumes "marked v"
  obtains kvs cs s where "v = JObject kvs" "map_of kvs (js ''credentials'') = Some (JObject cs)"
    "map_of cs (js ''password'') = Some (JString s)" "startsWith s (js ''encrypted:'')"
proof -
  from assms obtain s where pw: "password_of v = Some (JString s)"
    and s: "startsWith s (js ''encrypted:'')"
    by (auto simp add: marked_def split: option.splits json.splits)
  from pw obtain c where c: "get_prop (js ''credentials'') v = Some c"
    and p: "get_prop (js ''password'') c = Some (JString s)"
    by (auto simp add: password_of_def split: option.splits)
  from c obtain kvs where v: "v = JObject kvs" and kc: "map_of kvs (js ''credentials'') = Some c"
    by (auto simp add: get_prop_def split: json.splits)
  from p obtain cs where "c = JObject cs" and "map_of cs (js ''password'') = Some (JString s)"
    by (auto simp add: get_prop_def split: json.splits)
  with v kc s that show thesis by blast
qed

text \<open>The callback on an entry without the marker, and on one with it.\<close>

lemma visit_env_unmarked:
  "\<not> marked v \<Longrightarrow> visit_env P encryptionKey name v calls = (Inr v, calls)"
  by (auto simp add: visit_env_def marked_def split: option.splits json.splits)

lemma visit_env_marked:
  assumes "marked v"
  shows "visit_env P encryptionKey name v calls =
     (case encryptionKey of
        None \<Rightarrow> (Inl MissingEncryptionKey, calls)
      | Some k \<Rightarrow>
          if k = [] then (Inl MissingEncryptionKey, calls)
          else (case decrypt P (payload v) k of
                  Inl e \<Rightarrow> (Inl (DecryptionFailed name e), Suc calls)
                | Inr plain \<Rightarrow> (Inr (set_password v plain), Suc calls)))"
proof -
  from assms obtain s where pw: "password_of v = Some (JString s)"
    and s: "startsWith s (js ''encrypted:'')"
    by (auto simp add: marked_def split: option.splits json.splits)
  have "s \<noteq> []" using s by (rule startsWith_marker_not_empty)
  then show ?thesis
    using pw s by (simp add: visit_env_def payload_def split: option.splits)
qed

text \<open>The assignment changes the password field and nothing else.\<close>

lemma set_password_marked:
  assumes "marked v"
  shows "password_of (set_password v s) = Some (JString s)"
    and "only_password_differs v (set_password v s)"
proof -
  from assms obtain kvs cs s0 where v: "v = JObject kvs"
    and c: "map_of kvs (js ''credentials'') = Some (JObject cs)"
    and p: "map_of cs (js ''password'') = Some (JString s0)"
    by (rule markedE)
  let ?cs = "AList.update (js ''password'') (JString s) cs"
  let ?kvs = "AList.update (js ''credentials'') (JObject ?cs) kvs"
  have sp: "set_password v s = JObject ?kvs"
    by (simp add: set_password_def v c)
  have kc: "js ''credentials'' \<in> set (map fst kvs)"
    using map_of_SomeD [OF c] by force
  have kp: "js ''password'' \<in> set (map fst cs)"
    using map_of_SomeD [OF p] by force
  show "password_of (set_password v s) = Some (JString s)"
    by (simp add: sp password_of_def get_prop_def update_conv')
  show "only_password_differs v (set_password v s)"
    unfolding only_password_differs_def
  proof (intro exI conjI)
    show "v = JObject kvs" by (rule v)
    show "set_password v s = JObject ?kvs" by (rule sp)
    show "map fst ?kvs = map fst kvs" using kc by (simp add: update_keys)
    show "\<forall>k. k \<noteq> js ''credentials'' \<longrightarrow> map_of ?kvs k = map_of kvs k"
      by (simp add: update_conv')
    show "map_of kvs (js ''credentials'') = Some (JObject cs)" by (rule c)
    show "map_of ?kvs (js ''credentials'') = Some (JObject ?cs)" by (simp add: update_conv')
    show "map fst ?cs = map fst cs" using kp by (simp add: update_keys)
    show "\<forall>k. k \<noteq> js ''password'' \<longrightarrow> map_of ?cs k = map_of cs k"
      by (simp add: update_conv')
  qed
qed

text \<open>The loop without a usable key.\<close>

lemma forEach_env_no_key:
  assumes "encryptionKey = None \<or> encryptionKey = Some []"
  shows "forEach_env P encryptionKey kvs calls =
     (if \<exists>i<length kvs. marked (snd (kvs ! i)) then Inl MissingEncryptionKey else Inr kvs, calls)"
proof (induction kvs)
  case Nil
  show ?case by simp
next
  case (Cons a kvs)
  obtain name v where a: "a = (name, v)" by (cases a)
  show ?case
  proof (cases "marked v")
    case True
    then have "visit_env P encryptionKey name v calls = (Inl MissingEncryptionKey, calls)"
      using assms by (auto simp add: visit_env_marked)
    moreover have "\<exists>i<length (a # kvs). marked (snd ((a # kvs) ! i))"
      using True a by (intro exI [of _ 0]) simp
    ultimately show ?thesis by (simp add: a)
  next
    case False
    then have "visit_env P encryptionKey name v calls = (Inr v, calls)"
      by (rule visit_env_unmarked)
    moreover have "(\<exists>i<length (a # kvs). marked (snd ((a # kvs) ! i))) \<longleftrightarrow>
                   (\<exists>i<length kvs. marked (snd (kvs ! i)))"
      using False a by (auto simp add: less_Suc_eq_0_disj)
    ultimately show ?thesis
      using Cons.IH by (simp add: a)
  qed
qed

text \<open>When the loop ends normally, every entry kept its name and was resolved.\<close>

lemma forEach_env_success:
  assumes "forEach_env P encryptionKey kvs calls = (Inr kvs', calls')"
  shows "map fst kvs' = map fst kvs \<and>
         (\<forall>i<length kvs.
            if marked (snd (kvs ! i))
            then \<exists>k plain. encryptionKey = Some k \<and> k \<noteq> [] \<and>
                   decrypt P (payload (snd (kvs ! i))) k = Inr plain \<and>
                   snd (kvs' ! i) = set_password (snd (kvs ! i)) plain
            else snd (kvs' ! i) = snd (kvs ! i))"
  using assms
proof (induction kvs arbitrary: kvs' calls)
  case Nil
  then show ?case by simp
next
  case (Cons a kvs)
  obtain name v where a: "a = (name, v)" by (cases a)
  from Cons.prems obtain v1 calls1 rest1
    where visit: "visit_env P encryptionKey name v calls = (Inr v1, calls1)"
      and rest: "forEach_env P encryptionKey kvs calls1 = (Inr rest1, calls')"
      and kvs': "kvs' = (name, v1) # rest1"
    by (auto simp add: a split: prod.splits sum.splits)
  have head: "if marked v
              then \<exists>k plain. encryptionKey = Some k \<and> k \<noteq> [] \<and>
                     decrypt P (payload v) k = Inr plain \<and> v1 = set_password v plain
              else v1 = v"
  proof (cases "marked v")
    case True
    with visit show ?thesis
      by (auto simp add: visit_env_marked split: option.splits if_splits sum.splits)
  next
    case False
    with visit show ?thesis by (simp add: visit_env_unmarked)
  qed
  note ih = Cons.IH [OF rest]
  have ih1: "map fst rest1 = map fst kvs"
    using ih by (rule conjunct1)
  have ih2: "\<forall>i<length kvs.
       if marked (snd (kvs ! i))
       then \<exists>k plain. encryptionKey = Some k \<and> k \<noteq> [] \<and>
              decrypt P (payload (snd (kvs ! i))) k = Inr plain \<and>
              snd (rest1 ! i) = set_password (snd (kvs ! i)) plain
       else snd (rest1 ! i) = snd (kvs ! i)"
    using ih by (rule conjunct2)
  show ?case
  proof (intro conjI allI impI)
    show "map fst kvs' = map fst (a # kvs)" by (simp add: kvs' a ih1)
  next
    fix i assume "i < length (a # kvs)"
    show "if marked (snd ((a # kvs) ! i))
               then \<exists>k plain. encryptionKey = Some k \<and> k \<noteq> [] \<and>
                      decrypt P (payload (snd ((a # kvs) ! i))) k = Inr plain \<and>
                      snd (kvs' ! i) = set_password (snd ((a # kvs) ! i)) plain
               else snd (kvs' ! i) = snd ((a # kvs) ! i)"
    proof (cases i)
      case 0
      then show ?thesis using head by (cases "marked v") (auto simp add: kvs' a)
    next
      case (Suc i')
      with \<open>i < length (a # kvs)\<close> have "i' < length kvs" by simp
      from ih2 [rule_format, OF this] show ?thesis
        by (cases "marked (snd (kvs ! i'))") (auto simp add: kvs' a Suc)
    qed
  qed
qed

text \<open>The loop stops at the first entry whose envelope \<open>decrypt\<close> rejects.\<close>

lemma forEach_env_failure:
  assumes "k \<noteq> []" and "i < length kvs" and "marked (snd (kvs ! i))"
    and "decrypt P (payload (snd (kvs ! i))) k = Inl err"
    and "\<forall>j<i. marked (snd (kvs ! j)) \<longrightarrow> (\<exists>plain. decrypt P (payload (snd (kvs ! j))) k = Inr plain)"
  shows "fst (forEach_env P (Some k) kvs calls) = Inl (DecryptionFailed (fst (kvs ! i)) err)"
  using assms(2-)
proof (induction kvs arbitrary: i calls)
  case Nil
  then show ?case by simp
next
  case (Cons a kvs)
  obtain name v where a: "a = (name, v)" by (cases a)
  show ?case
  proof (cases i)
    case 0
    with Cons.prems have "marked v" "decrypt P (payload v) k = Inl err"
      by (simp_all add: a)
    then show ?thesis
      using assms(1) 0 by (simp add: a visit_env_marked)
  next
    case (Suc i')
    from Cons.prems(4) have "marked v \<longrightarrow> (\<exists>plain. decrypt P (payload v) k = Inr plain)"
      using Suc by (auto simp add: a dest: spec [of _ 0])
    then obtain v1 calls1 where visit: "visit_env P (Some k) name v calls = (Inr v1, calls1)"
      using assms(1)
      by (cases "marked v") (auto simp add: visit_env_marked visit_env_unmarked)
    have "fst (forEach_env P (Some k) kvs calls1) = Inl (DecryptionFailed (fst (kvs ! i')) err)"
    proof (rule Cons.IH)
      show "i' < length kvs" using Cons.prems(1) Suc by simp
      show "marked (snd (kvs ! i'))" using Cons.prems(2) Suc by simp
      show "decrypt P (payload (snd (kvs ! i'))) k = Inl err" using Cons.prems(3) Suc by simp
      show "\<forall>j<i'. marked (snd (kvs ! j)) \<longrightarrow>
              (\<exists>plain. decrypt P (payload (snd (kvs ! j))) k = Inr plain)"
      proof (intro allI impI)
        fix j assume "j < i'" "marked (snd (kvs ! j))"
        then show "\<exists>plain. decrypt P (payload (snd (kvs ! j))) k = Inr plain"
          using Cons.prems(4) [rule_format, of "Suc j"] Suc by simp
      qed
    qed
    moreover obtain res calls2 where "forEach_env P (Some k) kvs calls1 = (res, calls2)"
      by (cases "forEach_env P (Some k) kvs calls1")
    ultimately show ?thesis
      using visit Suc by (simp add: a)
  qed
qed

lemma forEach_env_unmarked:
  assumes "\<forall>i<length kvs. \<not> marked (snd (kvs ! i))"
  shows "forEach_env P encryptionKey kvs calls = (Inr kvs, calls)"
  using assms
proof (induction kvs)
  case Nil
  show ?case by simp
next
  case (Cons a kvs)
  obtain name v where a: "a = (name, v)" by (cases a)
  from Cons.prems have "\<not> marked v"
    using a by (auto dest: spec [of _ 0])
  moreover have "\<forall>i<length kvs. \<not> marked (snd (kvs ! i))"
  proof (intro allI impI)
    fix i assume "i < length kvs"
    then show "\<not> marked (snd (kvs ! i))"
      using Cons.prems [rule_format, of "Suc i"] by simp
  qed
  ultimately show ?case
    using Cons.IH by (simp add: a visit_env_unmarked)
qed

text \<open>With a key, the only error of the loop is that of a rejected envelope.\<close>

lemma forEach_env_error_kind:
  assumes "k \<noteq> []" and "forEach_env P (Some k) kvs calls = (Inl e, calls')"
  shows "\<exists>name err. e = DecryptionFailed name err"
  using assms(2)
proof (induction kvs arbitrary: calls)
  case Nil
  then show ?case by simp
next
  case (Cons a kvs)
  obtain name v where a: "a = (name, v)" by (cases a)
  show ?case
  proof (cases "visit_env P (Some k) name v calls")
    case (Pair res calls1)
    show ?thesis
    proof (cases res)
      case (Inl e1)
      with Pair Cons.prems have "e = e1" by (simp add: a)
      moreover from Pair Inl assms(1) have "\<exists>err. e1 = DecryptionFailed name err"
        by (cases "marked v")
          (auto simp add: visit_env_marked visit_env_unmarked split: sum.splits)
      ultimately show ?thesis by blast
    next
      case (Inr v1)
      with Pair Cons.prems have "forEach_env P (Some k) kvs calls1 = (Inl e, calls')"
        by (auto simp add: a split: prod.splits sum.splits)
      then show ?thesis by (rule Cons.IH)
    qed
  qed
qed

text \<open>The document level: the loop runs over the entries of the document.\<close>

lemma entries_array:
  assumes "map fst kvs = map decimal [0..<n]" and "length kvs = n"
  shows "entries (JArray (map snd kvs)) = kvs"
proof -
  have "zip (map fst kvs) (map snd kvs) = kvs" by (rule zip_map_fst_snd)
  then show ?thesis using assms by (simp add: entries_def)
qed

lemma decrypt_passwords_success:
  assumes "decrypt_passwords P encryptionKey data = (Inr doc, calls)"
  shows "same_kind data doc \<and> forEach_env P encryptionKey (entries data) 0 = (Inr (entries doc), calls)"
proof (cases data)
  case (JObject kvs)
  with assms show ?thesis
    by (auto simp add: decrypt_passwords_def entries_def same_kind_def split: prod.splits sum.splits)
next
  case (JArray xs)
  let ?kvs = "zip (map decimal [0..<length xs]) xs"
  from assms JArray obtain kvs1 where run: "forEach_env P encryptionKey ?kvs 0 = (Inr kvs1, calls)"
    and doc: "doc = JArray (map snd kvs1)"
    by (auto simp add: decrypt_passwords_def split: prod.splits sum.splits)
  from forEach_env_success [OF run] have keys: "map fst kvs1 = map fst ?kvs" by simp
  then have keys': "map fst kvs1 = map decimal [0..<length xs]" by simp
  from keys have len: "length kvs1 = length xs"
    using length_map [of fst kvs1] by simp
  have "entries doc = kvs1"
    unfolding doc using keys' len by (rule entries_array)
  then show ?thesis
    using run len by (simp add: JArray doc entries_def same_kind_def)
qed (use assms in \<open>auto simp add: decrypt_passwords_def entries_def same_kind_def\<close>)

lemma decrypt_passwords_failure:
  assumes "decrypt_passwords P encryptionKey data = (Inl e, calls)"
  shows "forEach_env P encryptionKey (entries data) 0 = (Inl e, calls)"
  using assms
  by (cases data)
    (auto simp add: decrypt_passwords_def entries_def split: prod.splits sum.splits)

lemma decrypt_passwords_unmarked:
  assumes "\<forall>i<length (entries data). \<not> marked (snd (entries data ! i))"
  shows "decrypt_passwords P encryptionKey data = (Inr data, 0)"
proof (cases data)
  case (JObject kvs)
  with assms show ?thesis
    by (simp add: decrypt_passwords_def entries_def forEach_env_unmarked)
next
  case (JArray xs)
  with assms have "forEach_env P encryptionKey (zip (map decimal [0..<length xs]) xs) 0 =
                   (Inr (zip (map decimal [0..<length xs]) xs), 0)"
    by (intro forEach_env_unmarked) (simp add: entries_def)
  then show ?thesis
    by (simp add: JArray decrypt_passwords_def)
qed (simp_all add: decrypt_passwords_def)

lemma decrypt_passwords_no_key:
  assumes "encryptionKey = None \<or> encryptionKey = Some []"
  shows "decrypt_passwords P encryptionKey data =
     (if \<exists>i<length (entries data). marked (snd (entries data ! i))
      then Inl MissingEncryptionKey else Inr data, 0)"
proof (cases "\<exists>i<length (entries data). marked (snd (entries data ! i))")
  case True
  then have run: "forEach_env P encryptionKey (entries data) 0 = (Inl MissingEncryptionKey, 0)"
    by (simp add: forEach_env_no_key [OF assms])
  show ?thesis
  proof (cases data)
    case (JObject kvs)
    with run True show ?thesis by (simp add: decrypt_passwords_def entries_def)
  next
    case (JArray xs)
    with run True show ?thesis by (simp add: decrypt_passwords_def entries_def)
  qed (use True in \<open>simp_all add: entries_def\<close>)
next
  case False
  then show ?thesis by (simp add: decrypt_passwords_unmarked)
qed

lemma readJsonFile_run_parsed:
  assumes "readFileSync w filePath = Some rawData" and "JSON_parse P rawData = Some data"
  shows "readJsonFile_run P w filePath = decrypt_passwords P (env w ''ENCRYPTION_KEY'') data"
  using assms by (simp add: readJsonFile_run_def)

subsection \<open>Source literals\<close>

lemma of_char_bound: "(of_char x :: nat) < 65536"
proof -
  have "(of_char x :: nat) mod 256 < 256" by simp
  then have "(of_char x :: nat) < 256" by (simp only: of_char_mod_256)
  then show ?thesis by linarith
qed

lemma unat_unit_of_char: "unat (unit_of (of_char c)) = of_char c"
  using of_char_bound by (rule unat_unit_of)

lemma js_inject: "js a = js b \<longleftrightarrow> a = b"
proof -
  have "inj (\<lambda>c :: char. unit_of (of_char c))"
  proof (rule injI)
    fix c d :: char
    assume eq: "unit_of (of_char c) = unit_of (of_char d)"
    have "(of_char c :: nat) = unat (unit_of (of_char c))"
      by (simp only: unat_unit_of_char)
    also have "\<dots> = unat (unit_of (of_char d))"
      by (simp only: eq)
    also have "\<dots> = of_char d"
      by (simp only: unat_unit_of_char)
    finally show "c = d" by (rule of_char_eqI)
  qed
  then show ?thesis
    unfolding js_def by (rule inj_map_eq_map)
qed

lemma length_js: "length (js s) = length s"
  by (simp add: js_def)

lemma startsWith_js: "startsWith (js s) (js p) \<longleftrightarrow> take (length p) s = p"
  by (simp add: startsWith_def js_def take_map js_inject [unfolded js_def])

lemma substring_js: "substring (js s) n = js (drop n s)"
  by (simp add: substring_def js_def drop_map)

lemma js_append: "js (a @ b) = js a @ js b"
  by (simp add: js_def)

lemma missing_key_message_names_variable:
  "sublist (js ''ENCRYPTION_KEY'') (message MissingEncryptionKey)"
proof -
  have "js ''ENCRYPTION_KEY environment variable is required to decrypt passwords. '' =
        js ''ENCRYPTION_KEY'' @ js '' environment variable is required to decrypt passwords. ''"
    by (simp add: js_append [symmetric])
  then have "message MissingEncryptionKey =
        js ''ENCRYPTION_KEY'' @
        (js '' environment variable is required to decrypt passwords. '' @
         js ''Set it with: export ENCRYPTION_KEY='' @ [unit_of 34] @ js ''your-key-here'' @
         [unit_of 34])"
    by simp
  then show ?thesis
    by (simp only: sublist_append_rightI)
qed

lemma decryption_failed_message:
  "sublist name (message (DecryptionFailed name err))"
  "sublist (error_message err) (message (DecryptionFailed name err))"
proof -
  show "sublist name (message (DecryptionFailed name err))"
    by (simp only: message.simps sublist_appendI)
  have "message (DecryptionFailed name err) =
        (js ''Failed to decrypt password for '' @ name @ js '' environment. '' @
         js ''Verify ENCRYPTION_KEY is correct. Error: '') @ error_message err"
    by simp
  then show "sublist (error_message err) (message (DecryptionFailed name err))"
    by (simp only: sublist_append_leftI)
qed

subsection \<open>The sample documents\<close>

lemma toy_JSON_parse: "JSON_parse toy = toy_parse"
  by (simp add: toy_def)

lemma sample_parsed:
  "readFileSync world_without_key (js ''config.json'') = Some (js ''sample'')"
  "readFileSync world_with_empty_key (js ''config.json'') = Some (js ''sample'')"
  "readFileSync world_with_key (js ''config.json'') = Some (js ''sample'')"
  "JSON_parse toy (js ''sample'') = Some sample_document"
  by (simp_all add: world_without_key_def world_with_empty_key_def world_with_key_def
      sample_files_def toy_JSON_parse toy_parse_def)

lemma broken_parsed:
  "readFileSync world_with_key (js ''broken.json'') = Some (js ''broken'')"
  "JSON_parse toy (js ''broken'') = Some broken_document"
  by (simp_all add: world_with_key_def sample_files_def toy_JSON_parse toy_parse_def js_inject)

lemma sample_keys:
  "env world_without_key ''ENCRYPTION_KEY'' = None"
  "env world_with_empty_key ''ENCRYPTION_KEY'' = Some []"
  "env world_with_key ''ENCRYPTION_KEY'' = Some (js ''k'')"
  by (simp_all add: world_without_key_def world_with_empty_key_def world_with_key_def)

lemma sample_entries:
  "length (entries sample_document) = 2"
  "\<not> marked (snd (entries sample_document ! 0))"
  "marked (snd (entries sample_document ! 1))"
  "payload (snd (entries sample_document ! 1)) =
     js ''AAECAwQFBgcICQoLDA0ODxAREhMUFRYXGBkaGxwdHh8gISIjJCUmJygpKissLS4vMDEyMzQ1Njc4OTo7PD0+P0BBQkNERUZHSElKS0xNTk+AgYKDhIWGh4iJiouMjY6PuA==''"
  by (simp_all add: entries_def sample_document_def marked_def payload_def password_of_def
      get_prop_def js_inject startsWith_js substring_js length_js)

lemma broken_entries:
  "length (entries broken_document) = 1"
  "marked (snd (entries broken_document ! 0))"
  "payload (snd (entries broken_document ! 0)) = js ''AAEC''"
  "fst (entries broken_document ! 0) = js ''QA''"
  by (simp_all add: entries_def broken_document_def marked_def payload_def password_of_def
      get_prop_def js_inject startsWith_js substring_js length_js)

lemma js_empty: "js s = [] \<longleftrightarrow> s = []"
  by (simp add: js_def)

lemma key_not_empty: "js ''k'' \<noteq> []"
  by (simp add: js_def)

lemma sample_decrypt:
  "decrypt toy
     (js ''AAECAwQFBgcICQoLDA0ODxAREhMUFRYXGBkaGxwdHh8gISIjJCUmJygpKissLS4vMDEyMzQ1Njc4OTo7PD0+P0BBQkNERUZHSElKS0xNTk+AgYKDhIWGh4iJiouMjY6PuA=='')
     (js ''k'') = Inr (js ''p'')"
proof -
  have "utf8_decode (utf8_encode (js ''p'')) = js ''p''"
    by (rule utf8_roundtrip) (simp add: js_def unit_of_def is_high_def is_low_def)
  with decrypt_of_encrypt [OF toy_ok sample_envelope] show ?thesis by simp
qed

lemma broken_decrypt: "decrypt toy (js ''AAEC'') (js ''k'') = Inl InvalidIV"
proof -
  have d: "base64_decode (js ''AAEC'') = [0, 1, 2]"
    by (simp add: base64_decode_def js_def unit_of_def unbase64_def low_byte_def pad_def byte_of_def)
  show ?thesis
    by (simp add: decrypt_def d gcm_open_def ALGORITHM_def crypto_ok_key [OF toy_ok] subarray_def
        subarray_from_def SALT_LENGTH_def IV_LENGTH_def TAG_LENGTH_def Let_def)
qed

lemma sample_load:
  "readJsonFile toy world_with_key (js ''config.json'') = Inr resolved_document"
  by (simp add: readJsonFile_def readJsonFile_run_def sample_parsed sample_keys
      decrypt_passwords_def sample_document_def resolved_document_def visit_env_def
      password_of_def get_prop_def set_password_def js_inject startsWith_js substring_js
      length_js js_empty sample_decrypt)

section \<open>Claims about the resolver\<close>

text \<open>
  C5. When the document read has at least one entry whose password field starts with
  \<open>encrypted:\<close> and the environment has no \<open>ENCRYPTION_KEY\<close>, \<open>readJsonFile\<close> fails with
  the missing-key error, whose message names \<open>ENCRYPTION_KEY\<close>, and \<open>decrypt\<close> has not
  been called.
\<close>

theorem C5_missing_key:
  assumes "readFileSync w filePath = Some rawData" and "JSON_parse P rawData = Some data"
    and "env w ''ENCRYPTION_KEY'' = None"
    and "i < length (entries data)" and "marked (snd (entries data ! i))"
  shows "readJsonFile P w filePath = Inl MissingEncryptionKey \<and>
         sublist (js ''ENCRYPTION_KEY'') (message MissingEncryptionKey) \<and>
         decrypt_calls P w filePath = 0"
proof -
  have "\<exists>i<length (entries data). marked (snd (entries data ! i))"
    using assms(4,5) by blast
  then have "readJsonFile_run P w filePath = (Inl MissingEncryptionKey, 0)"
    using assms(3)
    by (simp add: readJsonFile_run_parsed [OF assms(1,2)] decrypt_passwords_no_key)
  with missing_key_message_names_variable show ?thesis
    by (simp add: readJsonFile_def decrypt_calls_def del: message.simps)
qed

theorem C5_missing_key_witness:
  "readFileSync world_without_key (js ''config.json'') = Some (js ''sample'') \<and>
   JSON_parse toy (js ''sample'') = Some sample_document \<and>
   env world_without_key ''ENCRYPTION_KEY'' = None \<and>
   1 < length (entries sample_document) \<and> marked (snd (entries sample_document ! 1)) \<and>
   readJsonFile toy world_without_key (js ''config.json'') = Inl MissingEncryptionKey \<and>
   decrypt_calls toy world_without_key (js ''config.json'') = 0"
proof -
  have len: "1 < length (entries sample_document)"
    by (simp add: sample_entries(1))
  from C5_missing_key [OF sample_parsed(1) sample_parsed(4) sample_keys(1) len sample_entries(3)]
  show ?thesis
    using sample_parsed(1) sample_parsed(4) sample_keys(1) len sample_entries(3) by simp
qed

text \<open>
  C6. When \<open>readJsonFile\<close> returns a document, it is of the same kind as the one read and
  has the same entries in the same order. An entry whose password field does not start with
  \<open>encrypted:\<close> is returned unchanged. An entry whose password field starts with it differs
  from the one read in that field only, which holds what \<open>decrypt\<close> returned for the rest
  of the field under the key of the environment. A document without marked entries is
  returned as it is.
\<close>

theorem C6_frame:
  assumes "readFileSync w filePath = Some rawData" and "JSON_parse P rawData = Some data"
    and "readJsonFile P w filePath = Inr doc"
  shows "same_kind data doc \<and> map fst (entries doc) = map fst (entries data) \<and>
         (i < length (entries data) \<longrightarrow>
            (if marked (snd (entries data ! i))
             then \<exists>k plain. env w ''ENCRYPTION_KEY'' = Some k \<and>
                    decrypt P (payload (snd (entries data ! i))) k = Inr plain \<and>
                    password_of (snd (entries doc ! i)) = Some (JString plain) \<and>
                    only_password_differs (snd (entries data ! i)) (snd (entries doc ! i))
             else snd (entries doc ! i) = snd (entries data ! i))) \<and>
         ((\<forall>j<length (entries data). \<not> marked (snd (entries data ! j))) \<longrightarrow> doc = data)"
proof -
  obtain calls where run: "decrypt_passwords P (env w ''ENCRYPTION_KEY'') data = (Inr doc, calls)"
    using assms(3) readJsonFile_run_parsed [OF assms(1,2)]
    by (cases "decrypt_passwords P (env w ''ENCRYPTION_KEY'') data")
      (auto simp add: readJsonFile_def)
  note loop = decrypt_passwords_success [OF run]
  note each = forEach_env_success [OF loop [THEN conjunct2]]
  have entry: "if marked (snd (entries data ! i))
             then \<exists>k plain. env w ''ENCRYPTION_KEY'' = Some k \<and>
                    decrypt P (payload (snd (entries data ! i))) k = Inr plain \<and>
                    password_of (snd (entries doc ! i)) = Some (JString plain) \<and>
                    only_password_differs (snd (entries data ! i)) (snd (entries doc ! i))
             else snd (entries doc ! i) = snd (entries data ! i)"
    if i: "i < length (entries data)"
  proof (cases "marked (snd (entries data ! i))")
    case True
    with each [THEN conjunct2, rule_format, OF i] obtain k plain
      where "env w ''ENCRYPTION_KEY'' = Some k"
        and "decrypt P (payload (snd (entries data ! i))) k = Inr plain"
        and "snd (entries doc ! i) = set_password (snd (entries data ! i)) plain"
      by auto
    with True set_password_marked [OF True, of plain] show ?thesis by auto
  next
    case False
    with each [THEN conjunct2, rule_format, OF i] show ?thesis by simp
  qed
  have "doc = data" if "\<forall>j<length (entries data). \<not> marked (snd (entries data ! j))"
    using run decrypt_passwords_unmarked [OF that, of P "env w ''ENCRYPTION_KEY''"] by simp
  with loop each entry show ?thesis by blast
qed

theorem C6_frame_witness:
  "readFileSync world_with_key (js ''config.json'') = Some (js ''sample'') \<and>
   JSON_parse toy (js ''sample'') = Some sample_document \<and>
   readJsonFile toy world_with_key (js ''config.json'') = Inr resolved_document \<and>
   same_kind sample_document resolved_document \<and>
   0 < length (entries sample_document) \<and> \<not> marked (snd (entries sample_document ! 0)) \<and>
   snd (entries resolved_document ! 0) = snd (entries sample_document ! 0) \<and>
   1 < length (entries sample_document) \<and> marked (snd (entries sample_document ! 1)) \<and>
   only_password_differs (snd (entries sample_document ! 1)) (snd (entries resolved_document ! 1))"
proof -
  have len: "0 < length (entries sample_document)" "1 < length (entries sample_document)"
    by (simp_all add: sample_entries(1))
  from C6_frame [OF sample_parsed(3) sample_parsed(4) sample_load, of 0]
    C6_frame [OF sample_parsed(3) sample_parsed(4) sample_load, of 1]
  show ?thesis
    using sample_parsed(3) sample_parsed(4) sample_load len sample_entries(2) sample_entries(3)
    by auto
qed

text \<open>
  C7. With a non-empty key in the environment: when \<open>decrypt\<close> rejects the envelope of an
  entry and accepts those of the marked entries before it, \<open>readJsonFile\<close> fails with the
  decryption error of that entry, whose message contains the entry's name and the message
  of the error \<open>decrypt\<close> raised; and whenever \<open>decrypt\<close> rejects the envelope of some entry
  \<open>readJsonFile\<close> fails with a decryption error. In every environment: when
  \<open>readJsonFile\<close> returns a document, the password field of every marked entry holds what
  \<open>decrypt\<close> returned for it.
\<close>

theorem C7_whole_load_failure:
  assumes "readFileSync w filePath = Some rawData" and "JSON_parse P rawData = Some data"
  shows "(env w ''ENCRYPTION_KEY'' = Some k \<and> k \<noteq> [] \<and>
          i < length (entries data) \<and> marked (snd (entries data ! i)) \<and>
          decrypt P (payload (snd (entries data ! i))) k = Inl err \<and>
          (\<forall>j<i. marked (snd (entries data ! j)) \<longrightarrow>
                 (\<exists>plain. decrypt P (payload (snd (entries data ! j))) k = Inr plain)) \<longrightarrow>
            readJsonFile P w filePath = Inl (DecryptionFailed (fst (entries data ! i)) err) \<and>
            sublist (fst (entries data ! i))
              (message (DecryptionFailed (fst (entries data ! i)) err)) \<and>
            sublist (error_message err)
              (message (DecryptionFailed (fst (entries data ! i)) err))) \<and>
         (env w ''ENCRYPTION_KEY'' = Some k \<and> k \<noteq> [] \<and>
          i < length (entries data) \<and> marked (snd (entries data ! i)) \<and>
          decrypt P (payload (snd (entries data ! i))) k = Inl err \<longrightarrow>
            (\<exists>name e. readJsonFile P w filePath = Inl (DecryptionFailed name e))) \<and>
         (readJsonFile P w filePath = Inr doc \<and> i < length (entries data) \<and>
          marked (snd (entries data ! i)) \<longrightarrow>
            (\<exists>k plain. env w ''ENCRYPTION_KEY'' = Some k \<and>
                       decrypt P (payload (snd (entries data ! i))) k = Inr plain \<and>
                       password_of (snd (entries doc ! i)) = Some (JString plain)))"
proof -
  note parsed = readJsonFile_run_parsed [OF assms]
  have resolved: "\<exists>k plain. env w ''ENCRYPTION_KEY'' = Some k \<and>
                   decrypt P (payload (snd (entries data ! i))) k = Inr plain \<and>
                   password_of (snd (entries doc ! i)) = Some (JString plain)"
    if returned: "readJsonFile P w filePath = Inr doc" and index: "i < length (entries data)"
      and marker: "marked (snd (entries data ! i))" for doc
  proof -
    obtain calls where "decrypt_passwords P (env w ''ENCRYPTION_KEY'') data = (Inr doc, calls)"
      using returned parsed
      by (cases "decrypt_passwords P (env w ''ENCRYPTION_KEY'') data")
        (auto simp add: readJsonFile_def)
    from decrypt_passwords_success [OF this, THEN conjunct2, THEN forEach_env_success,
        THEN conjunct2, rule_format, OF index] marker
    obtain k plain where "env w ''ENCRYPTION_KEY'' = Some k"
      and "decrypt P (payload (snd (entries data ! i))) k = Inr plain"
      and "snd (entries doc ! i) = set_password (snd (entries data ! i)) plain"
      by auto
    with set_password_marked(1) [OF marker, of plain] show ?thesis by auto
  qed
  have loop: "\<exists>calls. forEach_env P (Some k) (entries data) 0 = (Inl e, calls)"
    if key: "env w ''ENCRYPTION_KEY'' = Some k" and thrown: "readJsonFile P w filePath = Inl e"
    for e
  proof -
    obtain calls where "decrypt_passwords P (Some k) data = (Inl e, calls)"
      using key thrown parsed
      by (cases "decrypt_passwords P (Some k) data") (auto simp add: readJsonFile_def)
    then have "forEach_env P (Some k) (entries data) 0 = (Inl e, calls)"
      by (rule decrypt_passwords_failure)
    then show ?thesis by blast
  qed
  have first: "readJsonFile P w filePath = Inl (DecryptionFailed (fst (entries data ! i)) err)"
    if key: "env w ''ENCRYPTION_KEY'' = Some k" "k \<noteq> []"
      and entry: "i < length (entries data)" "marked (snd (entries data ! i))"
        "decrypt P (payload (snd (entries data ! i))) k = Inl err"
        "\<forall>j<i. marked (snd (entries data ! j)) \<longrightarrow>
               (\<exists>plain. decrypt P (payload (snd (entries data ! j))) k = Inr plain)"
  proof (cases "readJsonFile P w filePath")
    case (Inl e)
    from loop [OF key(1) Inl] obtain calls
      where "forEach_env P (Some k) (entries data) 0 = (Inl e, calls)" by blast
    with forEach_env_failure [OF key(2) entry, of 0]
    have "e = DecryptionFailed (fst (entries data ! i)) err" by simp
    with Inl show ?thesis by simp
  next
    case (Inr doc')
    from resolved [OF Inr entry(1,2)] key(1) entry(3) show ?thesis by auto
  qed
  have some: "\<exists>name e. readJsonFile P w filePath = Inl (DecryptionFailed name e)"
    if key: "env w ''ENCRYPTION_KEY'' = Some k" "k \<noteq> []"
      and entry: "i < length (entries data)" "marked (snd (entries data ! i))"
        "decrypt P (payload (snd (entries data ! i))) k = Inl err"
  proof (cases "readJsonFile P w filePath")
    case (Inl e)
    from loop [OF key(1) Inl] obtain calls
      where "forEach_env P (Some k) (entries data) 0 = (Inl e, calls)" by blast
    from forEach_env_error_kind [OF key(2) this] Inl show ?thesis by auto
  next
    case (Inr doc')
    from resolved [OF Inr entry(1,2)] key(1) entry(3) show ?thesis by auto
  qed
  show ?thesis
    using first some resolved decryption_failed_message by blast
qed

theorem C7_whole_load_failure_witness:
  "readFileSync world_with_key (js ''broken.json'') = Some (js ''broken'') \<and>
   JSON_parse toy (js ''broken'') = Some broken_document \<and>
   env world_with_key ''ENCRYPTION_KEY'' = Some (js ''k'') \<and> js ''k'' \<noteq> [] \<and>
   0 < length (entries broken_document) \<and> marked (snd (entries broken_document ! 0)) \<and>
   decrypt toy (payload (snd (entries broken_document ! 0))) (js ''k'') = Inl InvalidIV \<and>
   readJsonFile toy world_with_key (js ''broken.json'') =
     Inl (DecryptionFailed (js ''QA'') InvalidIV) \<and>
   readFileSync world_with_key (js ''config.json'') = Some (js ''sample'') \<and>
   JSON_parse toy (js ''sample'') = Some sample_document \<and>
   readJsonFile toy world_with_key (js ''config.json'') = Inr resolved_document \<and>
   1 < length (entries sample_document) \<and> marked (snd (entries sample_document ! 1)) \<and>
   password_of (snd (entries resolved_document ! 1)) = Some (JString (js ''p''))"
proof -
  have len: "0 < length (entries broken_document)" "1 < length (entries sample_document)"
    by (simp_all add: broken_entries(1) sample_entries(1))
  have rejected: "decrypt toy (payload (snd (entries broken_document ! 0))) (js ''k'') = Inl InvalidIV"
    by (simp only: broken_entries(3) broken_decrypt)
  have accepted: "decrypt toy (payload (snd (entries sample_document ! 1))) (js ''k'') = Inr (js ''p'')"
    by (simp only: sample_entries(4) sample_decrypt)
  note rejects = C7_whole_load_failure [OF broken_parsed, of "js ''k''" 0 InvalidIV,
      THEN conjunct1, rule_format, THEN conjunct1]
  have failed: "readJsonFile toy world_with_key (js ''broken.json'') =
                Inl (DecryptionFailed (fst (entries broken_document ! 0)) InvalidIV)"
    by (rule rejects)
      (simp add: sample_keys(3) key_not_empty broken_entries(1) broken_entries(2) rejected)
  note accepts = C7_whole_load_failure [OF sample_parsed(3) sample_parsed(4),
      of "js ''k''" 1 InvalidIV resolved_document,
      THEN conjunct2, THEN conjunct2, rule_format]
  have "\<exists>k plain. env world_with_key ''ENCRYPTION_KEY'' = Some k \<and>
          decrypt toy (payload (snd (entries sample_document ! 1))) k = Inr plain \<and>
          password_of (snd (entries resolved_document ! 1)) = Some (JString plain)"
    by (rule accepts) (use sample_load sample_entries(1) sample_entries(3) in simp)
  with accepted sample_keys(3) have resolved:
    "password_of (snd (entries resolved_document ! 1)) = Some (JString (js ''p''))"
    by auto
  show ?thesis
    using broken_parsed sample_parsed(3) sample_parsed(4) sample_keys(3) key_not_empty len
      broken_entries(2) sample_entries(3) rejected failed [unfolded broken_entries(4)]
      sample_load resolved
    by (simp del: message.simps)
qed

text \<open>
  C10. An \<open>ENCRYPTION_KEY\<close> that is the empty string has the effect of an absent one:
  \<open>readJsonFile\<close> does what it does without the variable, it never calls \<open>decrypt\<close>, and
  it fails with the missing-key error when an entry bears the marker.
\<close>

theorem C10_empty_key:
  assumes "readFileSync w filePath = Some rawData" and "JSON_parse P rawData = Some data"
    and "env w ''ENCRYPTION_KEY'' = Some []"
  shows "readJsonFile_run P w filePath =
           readJsonFile_run P (w\<lparr>env := (env w)(''ENCRYPTION_KEY'' := None)\<rparr>) filePath \<and>
         decrypt_calls P w filePath = 0 \<and>
         (i < length (entries data) \<and> marked (snd (entries data ! i)) \<longrightarrow>
            readJsonFile P w filePath = Inl MissingEncryptionKey)"
proof -
  have absent: "readJsonFile_run P (w\<lparr>env := (env w)(''ENCRYPTION_KEY'' := None)\<rparr>) filePath =
                decrypt_passwords P None data"
    using assms(1,2) by (simp add: readJsonFile_run_def)
  have empty: "readJsonFile_run P w filePath = decrypt_passwords P (Some []) data"
    using assms by (simp add: readJsonFile_run_def)
  show ?thesis
    by (auto simp add: absent empty decrypt_passwords_no_key readJsonFile_def decrypt_calls_def)
qed

theorem C10_empty_key_witness:
  "readFileSync world_with_empty_key (js ''config.json'') = Some (js ''sample'') \<and>
   JSON_parse toy (js ''sample'') = Some sample_document \<and>
   env world_with_empty_key ''ENCRYPTION_KEY'' = Some [] \<and>
   1 < length (entries sample_document) \<and> marked (snd (entries sample_document ! 1)) \<and>
   decrypt_calls toy world_with_empty_key (js ''config.json'') = 0 \<and>
   readJsonFile toy world_with_empty_key (js ''config.json'') = Inl MissingEncryptionKey"
proof -
  have len: "1 < length (entries sample_document)"
    by (simp add: sample_entries(1))
  from C10_empty_key [OF sample_parsed(2) sample_parsed(4) sample_keys(2), of 1]
  show ?thesis
    using sample_parsed(2) sample_parsed(4) sample_keys(2) len sample_entries(3) by simp
qed

section \<open>Claims about the command-line script\<close>

text \<open>
  C9 (amended). The script writes to the console only. When the password and the
  encryption key are both non-empty it exits with code 0 after printing, among other
  lines, the line \<open>"password": "encrypted:<envelope>"\<close> with the result of \<open>encrypt\<close> and
  the line \<open>export ENCRYPTION_KEY="<key>"\<close> with the encryption key as it was entered.
  When one of them is empty it prints what it prints for two empty inputs and exits with
  code 1.
\<close>

theorem C9_console_output:
  assumes "crypto_ok P"
  shows "(password \<noteq> [] \<and> encryptionKey \<noteq> [] \<longrightarrow>
            (\<exists>encrypted.
               fst (encrypt P r password encryptionKey) = Inr encrypted \<and>
               console_log ([quote] @ js ''password'' @ [quote] @ js '': '' @ [quote] @
                            js ''encrypted:'' @ encrypted @ [quote, newline])
                 \<in> set (fst (encryptPassword P r password encryptionKey)) \<and>
               console_log (js ''export ENCRYPTION_KEY='' @ [quote] @ encryptionKey @ [quote])
                 \<in> set (fst (encryptPassword P r password encryptionKey)) \<and>
               snd (encryptPassword P r password encryptionKey) = 0)) \<and>
         (password = [] \<or> encryptionKey = [] \<longrightarrow>
            encryptPassword P r password encryptionKey = encryptPassword P r [] [] \<and>
            snd (encryptPassword P r password encryptionKey) = 1)"
proof (intro conjI impI)
  assume "password \<noteq> [] \<and> encryptionKey \<noteq> []"
  moreover obtain encrypted where "fst (encrypt P r password encryptionKey) = Inr encrypted"
    using encrypt_envelope [OF assms, of r password encryptionKey] by blast
  ultimately show "\<exists>encrypted.
       fst (encrypt P r password encryptionKey) = Inr encrypted \<and>
       console_log ([quote] @ js ''password'' @ [quote] @ js '': '' @ [quote] @
                    js ''encrypted:'' @ encrypted @ [quote, newline])
         \<in> set (fst (encryptPassword P r password encryptionKey)) \<and>
       console_log (js ''export ENCRYPTION_KEY='' @ [quote] @ encryptionKey @ [quote])
         \<in> set (fst (encryptPassword P r password encryptionKey)) \<and>
       snd (encryptPassword P r password encryptionKey) = 0"
    by (simp add: encryptPassword_def Let_def)
next
  assume "password = [] \<or> encryptionKey = []"
  then show "encryptPassword P r password encryptionKey = encryptPassword P r [] []"
    by (auto simp add: encryptPassword_def Let_def)
next
  assume "password = [] \<or> encryptionKey = []"
  then show "snd (encryptPassword P r password encryptionKey) = 1"
    by (auto simp add: encryptPassword_def Let_def)
qed

theorem C9_console_output_witness:
  "crypto_ok toy \<and> js ''p'' \<noteq> [] \<and> js ''k'' \<noteq> [] \<and>
   console_log (js ''export ENCRYPTION_KEY='' @ [quote] @ js ''k'' @ [quote])
     \<in> set (fst (encryptPassword toy counting (js ''p'') (js ''k''))) \<and>
   snd (encryptPassword toy counting (js ''p'') (js ''k'')) = 0 \<and>
   (js ''p'' = [] \<or> ([] :: jsstring) = []) \<and>
   snd (encryptPassword toy counting (js ''p'') []) = 1"
proof -
  have inputs: "js ''p'' \<noteq> []" "js ''k'' \<noteq> []"
    by (simp_all add: js_empty)
  from C9_console_output [OF toy_ok, of "js ''p''" "js ''k''" counting]
    C9_console_output [OF toy_ok, of "js ''p''" "[]" counting]
  show ?thesis
    using toy_ok inputs by blast
qed

text \<open>
  C9 as stated fails: the output of the script contains the encryption key, in the line
  that tells the operator how to set the environment variable.
\<close>

theorem C9_key_printed:
  "(Stdout, js ''export ENCRYPTION_KEY='' @ [quote] @ js ''correct-horse-battery-staple'' @
            [quote, newline])
     \<in> set (fst (encryptPassword toy counting (js ''Automation@Tester@1990'')
                  (js ''correct-horse-battery-staple'')))"
proof -
  obtain encrypted where "fst (encrypt toy counting (js ''Automation@Tester@1990'')
      (js ''correct-horse-battery-staple'')) = Inr encrypted"
    using encrypt_envelope [OF toy_ok] by blast
  then show ?thesis
    by (simp add: encryptPassword_def Let_def console_log_def js_empty)
qed

end
